theory Spec2Isabelle
  imports Complex_Main
begin

section \<open>Sarcasm detection script (Code/Bertcls.py): a shallow embedding\<close>

text \<open>
  The script glues a tokenizer, a pretrained encoder, an optimizer and a storage call
  together. What the script itself decides (the loops, the accumulators, the comparison
  that guards the checkpoint, the order of its statements) is translated from the
  source. Python's floats are read as rationals: every accuracy of the script is the
  quotient of two integers, and the loss values enter as results of the criterion.
  Every exception of the source is a value of the type \<open>error\<close>.
\<close>

datatype error =
  ZeroDivisionError
  | JSONDecodeError
  | KeyError
  | TypeError
  | IndexError
  | ValueError
  | OSError
  | FileNotFoundError
  | RuntimeError

section \<open>The checkpoint policy of \<open>main\<close> (lines 169 and 185 to 187)\<close>

text \<open>
  The file \<open>best_model.pt\<close> is the single, fixed checkpoint location. It holds no
  snapshot, a complete snapshot, or the remains of a write that broke off after the
  file had been opened for writing.
\<close>

datatype 'p checkpoint_file = Absent | Snapshot 'p | Truncated

text \<open>What the storage does with one call of \<open>torch.save\<close>: an input of the run.\<close>

datatype disk = Healthy | FailsOnOpen | FailsDuringWrite

text \<open>
  Modelled from the spec: \<open>torch.save\<close> is a library call; the spec's storage errors on
  checkpoint write are fatal, and a completed write overwrites the prior snapshot in
  place. The result is the exception raised, if any, and the file afterwards.
\<close>

fun torch_save :: "disk \<Rightarrow> 'p \<Rightarrow> 'p checkpoint_file \<Rightarrow> error option \<times> 'p checkpoint_file" where
  "torch_save Healthy p f = (None, Snapshot p)"
| "torch_save FailsOnOpen p f = (Some OSError, f)"
| "torch_save FailsDuringWrite p f = (Some OSError, Truncated)"

text \<open>
  What one epoch hands to the checkpoint policy: the parameters after the epoch's
  training (\<open>model.state_dict()\<close>), the accuracy \<open>evaluate\<close> returned, and the
  behaviour of the storage during that epoch.
\<close>

record 'p epoch_outcome =
  state_dict :: 'p
  val_accuracy :: rat
  storage :: disk

text \<open>
  The variables of \<open>main\<close> the policy reads and writes. \<open>saved_epochs\<close> lists the
  epochs whose \<open>torch.save\<close> returned; \<open>raised\<close> is the exception that left \<open>main\<close>.
\<close>

record 'p run_state =
  best_accuracy :: rat
  best_model_pt :: "'p checkpoint_file"
  saved_epochs :: "nat list"
  raised :: "error option"

definition initial_run :: "'p run_state" where
  "initial_run = \<lparr>best_accuracy = 0, best_model_pt = Absent, saved_epochs = [], raised = None\<rparr>"

text \<open>
  Lines 185 to 187: the comparison, then the assignment to \<open>best_accuracy\<close>, then the
  call of \<open>torch.save\<close>.
\<close>

definition checkpoint_policy :: "nat \<Rightarrow> 'p epoch_outcome \<Rightarrow> 'p run_state \<Rightarrow> 'p run_state" where
  "checkpoint_policy epoch out st =
     (if val_accuracy out > best_accuracy st then
        (let st1 = st\<lparr>best_accuracy := val_accuracy out\<rparr>;
             (err, f) = torch_save (storage out) (state_dict out) (best_model_pt st1)
         in case err of
              None \<Rightarrow> st1\<lparr>best_model_pt := f, saved_epochs := saved_epochs st1 @ [epoch]\<rparr>
            | Some e \<Rightarrow> st1\<lparr>best_model_pt := f, raised := Some e\<rparr>)
      else st)"

text \<open>
  The loop \<open>for epoch in range(epochs)\<close>, seen from the policy: one outcome per epoch,
  and an exception ends the run.
\<close>

fun epoch_loop :: "nat \<Rightarrow> 'p epoch_outcome list \<Rightarrow> 'p run_state \<Rightarrow> 'p run_state" where
  "epoch_loop epoch [] st = st"
| "epoch_loop epoch (out # outs) st =
     (let st' = checkpoint_policy epoch out st
      in case raised st' of
           Some e \<Rightarrow> st'
         | None \<Rightarrow> epoch_loop (Suc epoch) outs st')"

text \<open>
  The positions of a sequence whose value is above \<open>best\<close> and above the value at every
  earlier position.
\<close>

definition improvements :: "rat \<Rightarrow> rat list \<Rightarrow> nat list" where
  "improvements best vs =
     filter (\<lambda>k. best < vs ! k \<and> (\<forall>v\<in>set (take k vs). v < vs ! k)) [0..<length vs]"

text \<open>
  The number of strict increases of a sequence against the best value so far: how often
  the running best, started at \<open>best\<close>, is exceeded.
\<close>

fun strict_increases :: "rat \<Rightarrow> rat list \<Rightarrow> nat" where
  "strict_increases best [] = 0"
| "strict_increases best (v # vs) =
     (if best < v then Suc (strict_increases v vs) else strict_increases best vs)"

text \<open>Concrete runs of the policy, used to evaluate it.\<close>

definition demo_outcomes :: "nat epoch_outcome list" where
  "demo_outcomes =
     [\<lparr>state_dict = 10, val_accuracy = 1/2, storage = Healthy\<rparr>,
      \<lparr>state_dict = 11, val_accuracy = 1/2, storage = Healthy\<rparr>,
      \<lparr>state_dict = 12, val_accuracy = 3/4, storage = Healthy\<rparr>]"

definition demo_failure :: "nat epoch_outcome" where
  "demo_failure = \<lparr>state_dict = 7, val_accuracy = 1/2, storage = FailsDuringWrite\<rparr>"

section \<open>The dataset adapter \<open>SarcasmDataset\<close> (lines 12 to 40)\<close>

text \<open>
  What \<open>json.loads\<close> returns: Python's \<open>None\<close>, \<open>bool\<close>, \<open>int\<close>, \<open>float\<close>, \<open>str\<close>,
  \<open>list\<close> and \<open>dict\<close>. An object keeps its members in the order of the line; Python's
  \<open>dict\<close> keeps the last value of a repeated key.
\<close>

datatype json =
  JNull
  | JBool bool
  | JInt int
  | JFloat rat
  | JString string
  | JArray "json list"
  | JObject "(string \<times> json) list"

text \<open>\<open>entry[key]\<close> for a string key: only a \<open>dict\<close> can be subscripted by a string.\<close>

fun subscript :: "json \<Rightarrow> string \<Rightarrow> error + json" where
  "subscript (JObject members) key =
     (case map_of (rev members) key of None \<Rightarrow> Inl KeyError | Some v \<Rightarrow> Inr v)"
| "subscript other key = Inl TypeError"

text \<open>
  The tokenizer is a collaborator: the conversion of a text to token ids (without
  special tokens) is a parameter, and may refuse its input.
\<close>

record bert_tokenizer =
  text_to_ids :: "json \<Rightarrow> error + nat list"
  cls_token_id :: nat
  sep_token_id :: nat
  pad_token_id :: nat

text \<open>
  Modelled from the spec: the tokenizer's \<open>encode_plus\<close> is a library call. As the source
  calls it (\<open>add_special_tokens=True\<close>, \<open>max_length\<close>, \<open>padding='max_length'\<close>,
  \<open>truncation=True\<close>, \<open>return_attention_mask=True\<close>, \<open>return_tensors='pt'\<close>) it truncates the
  token ids on the right so that they fit with the two special tokens, puts the special
  tokens around them, pads on the right up to \<open>max_length\<close>, and returns two tensors of one
  row each: the ids, and the mask with 1 on tokens and 0 on padding.
\<close>

definition encode_plus ::
  "bert_tokenizer \<Rightarrow> json \<Rightarrow> nat \<Rightarrow> error + (nat list list \<times> nat list list)" where
  "encode_plus tok text max_len =
     (case text_to_ids tok text of
        Inl e \<Rightarrow> Inl e
      | Inr ids \<Rightarrow>
          (let kept = take (max_len - 2) ids;
               tokens = cls_token_id tok # kept @ [sep_token_id tok];
               padding = max_len - length tokens
           in Inr ([tokens @ replicate padding (pad_token_id tok)],
                   [replicate (length tokens) 1 @ replicate padding 0])))"

text \<open>
  Modelled from the spec: \<open>torch.tensor(label, dtype=torch.long)\<close> is a library call. It
  takes a Python number that fits 64 bits (a \<open>float\<close> loses its fraction, a \<open>bool\<close> is 0 or
  1) and refuses \<open>None\<close> and strings. The labels of the dataset are scalars; a label that is
  a list is refused here.
\<close>

fun torch_tensor_long :: "json \<Rightarrow> error + int" where
  "torch_tensor_long (JInt n) =
     (if - (2 ^ 63) \<le> n \<and> n < 2 ^ 63 then Inr n else Inl RuntimeError)"
| "torch_tensor_long (JBool b) = Inr (if b then 1 else 0)"
| "torch_tensor_long (JFloat x) =
     (let n = (if 0 \<le> x then \<lfloor>x\<rfloor> else \<lceil>x\<rceil>)
      in if - (2 ^ 63) \<le> n \<and> n < 2 ^ 63 then Inr n else Inl RuntimeError)"
| "torch_tensor_long other = Inl TypeError"

text \<open>
  What the constructor reads from outside: the tokenizer a name resolves to
  (\<open>AutoTokenizer.from_pretrained\<close>), the lines of a file (\<open>open\<close>), and the parser
  \<open>json.loads\<close>, which fails on a line that is not valid JSON.
\<close>

record world =
  from_pretrained :: "string \<Rightarrow> bert_tokenizer option"
  file_lines :: "string \<Rightarrow> string list option"
  json_loads :: "string \<Rightarrow> json option"

record sarcasm_dataset =
  data :: "(json \<times> json) list"
  tokenizer :: bert_tokenizer
  max_length :: nat

text \<open>The loop of lines 18 to 20: \<open>acc\<close> is \<open>self.data\<close>.\<close>

fun read_lines :: "world \<Rightarrow> string list \<Rightarrow> (json \<times> json) list \<Rightarrow> error + (json \<times> json) list" where
  "read_lines w [] acc = Inr acc"
| "read_lines w (line # rest) acc =
     (case json_loads w line of
        None \<Rightarrow> Inl JSONDecodeError
      | Some entry \<Rightarrow>
          (case subscript entry ''headline'' of
             Inl e \<Rightarrow> Inl e
           | Inr headline \<Rightarrow>
               (case subscript entry ''is_sarcastic'' of
                  Inl e \<Rightarrow> Inl e
                | Inr is_sarcastic \<Rightarrow> read_lines w rest (acc @ [(headline, is_sarcastic)]))))"

text \<open>\<open>SarcasmDataset.__init__\<close>: the tokenizer first, then the file, then its lines.\<close>

definition SarcasmDataset :: "world \<Rightarrow> string \<Rightarrow> string \<Rightarrow> nat \<Rightarrow> error + sarcasm_dataset" where
  "SarcasmDataset w json_file tokenizer_name max_len =
     (case from_pretrained w tokenizer_name of
        None \<Rightarrow> Inl OSError
      | Some tok \<Rightarrow>
          (case file_lines w json_file of
             None \<Rightarrow> Inl FileNotFoundError
           | Some lines \<Rightarrow>
               (case read_lines w lines [] of
                  Inl e \<Rightarrow> Inl e
                | Inr d \<Rightarrow> Inr \<lparr>data = d, tokenizer = tok, max_length = max_len\<rparr>)))"

definition len_dataset :: "sarcasm_dataset \<Rightarrow> nat" where
  "len_dataset ds = length (data ds)"

text \<open>The dictionary \<open>__getitem__\<close> returns.\<close>

record encoded_example =
  input_ids :: "nat list"
  attention_mask :: "nat list"
  labels :: int

text \<open>
  \<open>SarcasmDataset.__getitem__\<close>. A Python list takes the indices from \<open>-len\<close> to
  \<open>len - 1\<close>; \<open>flatten\<close> turns the one-row tensors into sequences.
\<close>

definition getitem :: "sarcasm_dataset \<Rightarrow> int \<Rightarrow> error + encoded_example" where
  "getitem ds idx =
     (let n = int (length (data ds));
          j = (if idx < 0 then n + idx else idx)
      in if 0 \<le> j \<and> j < n then
           (case data ds ! nat j of
              (text, label) \<Rightarrow>
                (case encode_plus (tokenizer ds) text (max_length ds) of
                   Inl e \<Rightarrow> Inl e
                 | Inr (ids, attn) \<Rightarrow>
                     (case torch_tensor_long label of
                        Inl e \<Rightarrow> Inl e
                      | Inr l \<Rightarrow>
                          Inr \<lparr>input_ids = concat ids, attention_mask = concat attn,
                               labels = l\<rparr>)))
         else Inl IndexError)"

text \<open>
  The claim's words for a line the constructor cannot take: it is not valid JSON, or it
  lacks the text field or the label field.
\<close>

definition bad_line :: "world \<Rightarrow> string \<Rightarrow> bool" where
  "bad_line w line =
     (case json_loads w line of
        None \<Rightarrow> True
      | Some entry \<Rightarrow>
          isl (subscript entry ''headline'') \<or> isl (subscript entry ''is_sarcastic''))"

text \<open>The spec's data-format errors, as the exceptions Python raises for them.\<close>

definition parse_error :: "error \<Rightarrow> bool" where
  "parse_error e = (e = JSONDecodeError \<or> e = KeyError \<or> e = TypeError)"

text \<open>
  A small world to evaluate the adapter in: a tokenizer that gives the character b the id 8
  and every other character the id 7, and refuses what is no string, a file of the two records of the spec's
  example scenario, and a file whose second line is not JSON and whose third line lacks
  the label.
\<close>

definition demo_tokenizer :: bert_tokenizer where
  "demo_tokenizer =
     \<lparr>text_to_ids = (\<lambda>t. case t of JString s \<Rightarrow> Inr (map (\<lambda>c. if c = CHR ''b'' then 8 else 7) s) | _ \<Rightarrow> Inl ValueError),
      cls_token_id = 101, sep_token_id = 102, pad_token_id = 0\<rparr>"

definition line_a :: string where
  \<open>line_a = ''{"headline":"a","is_sarcastic":0}''\<close>

definition line_b :: string where
  \<open>line_b = ''{"headline":"b","is_sarcastic":1}''\<close>

definition line_c :: string where
  \<open>line_c = ''{"headline":"c"}''\<close>

definition demo_world :: world where
  "demo_world =
     \<lparr>from_pretrained = (\<lambda>name. if name = ''bert-base-uncased'' then Some demo_tokenizer else None),
      file_lines = (\<lambda>path.
        if path = ''two.json'' then Some [line_a, line_b]
        else if path = ''broken.json'' then Some [line_a, ''oops'', line_c]
        else if path = ''short.json'' then Some [line_a, line_c]
        else None),
      json_loads = (\<lambda>line.
        if line = line_a then Some (JObject [(''headline'', JString ''a''), (''is_sarcastic'', JInt 0)])
        else if line = line_b then Some (JObject [(''headline'', JString ''b''), (''is_sarcastic'', JInt 1)])
        else if line = line_c then Some (JObject [(''headline'', JString ''c'')])
        else None)\<rparr>"



section \<open>The batch loader (\<open>DataLoader\<close>, lines 162 and 163)\<close>

record batch =
  batch_input_ids :: "nat list list"
  batch_attention_mask :: "nat list list"
  batch_labels :: "int list"

record dataloader =
  dataset :: sarcasm_dataset
  batch_size :: nat
  shuffle :: bool

text \<open>
  Modelled from the spec: \<open>DataLoader\<close> is a library class. It refuses a batch size that is
  not positive; it keeps the last, smaller batch.
\<close>

definition DataLoader :: "sarcasm_dataset \<Rightarrow> nat \<Rightarrow> bool \<Rightarrow> error + dataloader" where
  "DataLoader ds bs sh =
     (if bs = 0 then Inl ValueError
      else Inr \<lparr>dataset = ds, batch_size = bs, shuffle = sh\<rparr>)"

text \<open>\<open>len(dataloader)\<close>: the number of batches of one pass.\<close>

definition len_dataloader :: "dataloader \<Rightarrow> nat" where
  "len_dataloader dl = (len_dataset (dataset dl) + batch_size dl - 1) div batch_size dl"

text \<open>Consecutive groups of \<open>n\<close> elements; the last group holds what remains.\<close>

function chunks :: "nat \<Rightarrow> 'a list \<Rightarrow> 'a list list" where
  "chunks n xs = (if n = 0 \<or> xs = [] then [] else take n xs # chunks n (drop n xs))"
  by pat_completeness auto
termination
  by (relation "measure (\<lambda>(n, xs). length xs)") auto

declare chunks.simps [simp del]

text \<open>
  The indices of one pass, batch by batch. With \<open>shuffle\<close> the sampler draws a permutation
  of the indices, which is an input of the run (\<open>order\<close>); without it the indices come in
  their order.
\<close>

definition index_batches :: "dataloader \<Rightarrow> nat list \<Rightarrow> nat list list" where
  "index_batches dl order =
     chunks (batch_size dl)
       (if shuffle dl then order else [0..<len_dataset (dataset dl)])"

definition permutation_of :: "nat list \<Rightarrow> nat \<Rightarrow> bool" where
  "permutation_of order n = (distinct order \<and> set order = {0..<n})"

text \<open>The first exception of a sequence of results, or all their values.\<close>

fun sequence :: "(error + 'a) list \<Rightarrow> error + 'a list" where
  "sequence [] = Inr []"
| "sequence (r # rs) =
     (case r of
        Inl e \<Rightarrow> Inl e
      | Inr x \<Rightarrow> (case sequence rs of Inl e \<Rightarrow> Inl e | Inr xs \<Rightarrow> Inr (x # xs)))"

text \<open>
  Modelled from the spec: the loader's default collation stacks the fields of the examples
  of a batch; stacking needs sequences of one length.
\<close>

definition collate :: "encoded_example list \<Rightarrow> error + batch" where
  "collate exs =
     (if list_all (\<lambda>e. length (input_ids e) = length (input_ids (hd exs))) exs \<and>
         list_all (\<lambda>e. length (attention_mask e) = length (attention_mask (hd exs))) exs
      then Inr \<lparr>batch_input_ids = map input_ids exs,
                batch_attention_mask = map attention_mask exs,
                batch_labels = map labels exs\<rparr>
      else Inl RuntimeError)"

text \<open>One step of the iteration over the loader: fetch the examples of a batch, stack them.\<close>

definition fetch :: "sarcasm_dataset \<Rightarrow> nat list \<Rightarrow> error + batch" where
  "fetch ds idxs =
     (case sequence (map (\<lambda>i. getitem ds (int i)) idxs) of
        Inl e \<Rightarrow> Inl e
      | Inr exs \<Rightarrow> collate exs)"

section \<open>The training and evaluation loops (lines 113 to 153)\<close>

text \<open>
  The collaborators of the loops, and the state they work on. The parameters, their
  gradient (\<open>None\<close> once cleared), the optimizer's state, the mode of the model and the
  random generator of dropout are the state; \<open>calls\<close> lists the calls the loops have made,
  in their order.
\<close>

datatype call = ZeroGrad | Forward nat | Criterion | Backward | OptimizerStep

record ('p, 'g, 'o, 'r) session =
  parameters :: 'p
  grad :: "'g option"
  optimizer_state :: 'o
  training :: bool
  generator :: 'r
  calls :: "call list"

text \<open>
  What the libraries compute, as parameters: the logits of the head in evaluation mode
  (dropout inactive: a function of the parameters and the batch) and in training mode
  (dropout draws from the generator), the value of the cross-entropy loss, the gradient
  of the loss of a batch, the sum of two gradients, and the update of the optimizer.
\<close>

record ('p, 'g, 'o, 'r) torch_env =
  forward_eval :: "'p \<Rightarrow> nat list list \<Rightarrow> nat list list \<Rightarrow> error + rat list list"
  forward_train :: "'p \<Rightarrow> 'r \<Rightarrow> nat list list \<Rightarrow> nat list list \<Rightarrow> (error + rat list list) \<times> 'r"
  cross_entropy :: "rat list list \<Rightarrow> int list \<Rightarrow> error + rat"
  gradient :: "'p \<Rightarrow> 'r \<Rightarrow> batch \<Rightarrow> error + 'g"
  accumulate :: "'g \<Rightarrow> 'g \<Rightarrow> 'g"
  adamw_step :: "'o \<Rightarrow> 'p \<Rightarrow> 'g option \<Rightarrow> error + 'o \<times> 'p"

text \<open>
  A call that may raise returns the state it leaves and the exception or the value;
  \<open>and_then\<close> runs the next statement on a value and stops at an exception.
\<close>

definition and_then :: "'s \<times> (error + 'a) \<Rightarrow> ('s \<Rightarrow> 'a \<Rightarrow> 's \<times> (error + 'b)) \<Rightarrow> 's \<times> (error + 'b)" where
  "and_then r f = (case r of (s, Inl e) \<Rightarrow> (s, Inl e) | (s, Inr a) \<Rightarrow> f s a)"

text \<open>\<open>model(input_ids, attention_mask)\<close>.\<close>

definition model ::
  "('p, 'g, 'o, 'r) torch_env \<Rightarrow> ('p, 'g, 'o, 'r) session \<Rightarrow> batch \<Rightarrow>
   ('p, 'g, 'o, 'r) session \<times> (error + rat list list)" where
  "model env st b =
     (let st1 = st\<lparr>calls := calls st @ [Forward (length (batch_input_ids b))]\<rparr>
      in if training st then
           (case forward_train env (parameters st) (generator st)
                   (batch_input_ids b) (batch_attention_mask b) of
              (r, g) \<Rightarrow> (st1\<lparr>generator := g\<rparr>, r))
         else (st1, forward_eval env (parameters st) (batch_input_ids b) (batch_attention_mask b)))"

text \<open>
  \<open>criterion(outputs, labels)\<close> with \<open>nn.CrossEntropyLoss\<close>, which refuses logits whose
  number of rows is not the number of labels.
\<close>

definition criterion ::
  "('p, 'g, 'o, 'r) torch_env \<Rightarrow> ('p, 'g, 'o, 'r) session \<Rightarrow> rat list list \<Rightarrow> int list \<Rightarrow>
   ('p, 'g, 'o, 'r) session \<times> (error + rat)" where
  "criterion env st outputs lbls =
     (st\<lparr>calls := calls st @ [Criterion]\<rparr>,
      if length outputs \<noteq> length lbls then Inl ValueError else cross_entropy env outputs lbls)"

text \<open>\<open>optimizer.zero_grad()\<close>.\<close>

definition zero_grad :: "('p, 'g, 'o, 'r) session \<Rightarrow> ('p, 'g, 'o, 'r) session" where
  "zero_grad st = st\<lparr>grad := None, calls := calls st @ [ZeroGrad]\<rparr>"

text \<open>
  \<open>loss.backward()\<close>: the gradient of the loss of this batch, under the dropout pattern of
  its forward pass (the generator \<open>g0\<close> before that pass), is added to the stored one.
\<close>

definition backward ::
  "('p, 'g, 'o, 'r) torch_env \<Rightarrow> ('p, 'g, 'o, 'r) session \<Rightarrow> 'r \<Rightarrow> batch \<Rightarrow>
   ('p, 'g, 'o, 'r) session \<times> (error + unit)" where
  "backward env st g0 b =
     (let st1 = st\<lparr>calls := calls st @ [Backward]\<rparr>
      in case gradient env (parameters st) g0 b of
           Inl e \<Rightarrow> (st1, Inl e)
         | Inr g \<Rightarrow>
             (st1\<lparr>grad := Some (case grad st of None \<Rightarrow> g | Some g' \<Rightarrow> accumulate env g' g)\<rparr>,
              Inr ()))"

text \<open>\<open>optimizer.step()\<close>.\<close>

definition optimizer_step ::
  "('p, 'g, 'o, 'r) torch_env \<Rightarrow> ('p, 'g, 'o, 'r) session \<Rightarrow>
   ('p, 'g, 'o, 'r) session \<times> (error + unit)" where
  "optimizer_step env st =
     (let st1 = st\<lparr>calls := calls st @ [OptimizerStep]\<rparr>
      in case adamw_step env (optimizer_state st) (parameters st) (grad st) of
           Inl e \<Rightarrow> (st1, Inl e)
         | Inr (os, p) \<Rightarrow> (st1\<lparr>optimizer_state := os, parameters := p\<rparr>, Inr ()))"

text \<open>
  The index of the first largest entry of a row (\<open>argmax\<close>), and
  \<open>(outputs.argmax(dim=1) == labels).sum().item()\<close>. \<open>argmax\<close> refuses rows without
  entries. The comparison is reached only after the criterion has accepted the number of
  rows.
\<close>

definition argmax :: "rat list \<Rightarrow> nat" where
  "argmax row = length (takeWhile (\<lambda>x. x \<noteq> fold max row (hd row)) row)"

definition correct_predictions :: "rat list list \<Rightarrow> int list \<Rightarrow> error + nat" where
  "correct_predictions outputs lbls =
     (if [] \<in> set outputs then Inl IndexError
      else if length outputs \<noteq> length lbls then Inl RuntimeError
      else Inr (length (filter (\<lambda>(row, l). int (argmax row) = l) (zip outputs lbls))))"

text \<open>Python's \<open>/\<close> with an integer divisor.\<close>

definition py_div :: "rat \<Rightarrow> nat \<Rightarrow> error + rat" where
  "py_div a n = (if n = 0 then Inl ZeroDivisionError else Inr (a / of_nat n))"

text \<open>The body of the loop of \<open>train\<close> (lines 118 to 129), after the batch is fetched.\<close>

definition train_batch ::
  "('p, 'g, 'o, 'r) torch_env \<Rightarrow> ('p, 'g, 'o, 'r) session \<Rightarrow> batch \<Rightarrow>
   ('p, 'g, 'o, 'r) session \<times> (error + rat \<times> nat)" where
  "train_batch env st b =
     (let g0 = generator st
      in and_then (model env (zero_grad st) b) (\<lambda>st1 outputs.
         and_then (criterion env st1 outputs (batch_labels b)) (\<lambda>st2 loss.
         and_then (backward env st2 g0 b) (\<lambda>st3 _.
         and_then (optimizer_step env st3) (\<lambda>st4 _.
           (st4, case correct_predictions outputs (batch_labels b) of
                   Inl e \<Rightarrow> Inl e
                 | Inr c \<Rightarrow> Inr (loss, c)))))))"

text \<open>The loop of \<open>train\<close> with its two accumulators.\<close>

fun train_loop ::
  "('p, 'g, 'o, 'r) torch_env \<Rightarrow> sarcasm_dataset \<Rightarrow> ('p, 'g, 'o, 'r) session \<Rightarrow> rat \<Rightarrow> nat \<Rightarrow>
   nat list list \<Rightarrow> ('p, 'g, 'o, 'r) session \<times> (error + rat \<times> nat)" where
  "train_loop env ds st total_loss total_correct [] = (st, Inr (total_loss, total_correct))"
| "train_loop env ds st total_loss total_correct (idxs # rest) =
     (case fetch ds idxs of
        Inl e \<Rightarrow> (st, Inl e)
      | Inr b \<Rightarrow>
          (case train_batch env st b of
             (st', Inl e) \<Rightarrow> (st', Inl e)
           | (st', Inr (loss, c)) \<Rightarrow>
               train_loop env ds st' (total_loss + loss) (total_correct + c) rest))"

text \<open>Lines 131 to 133 and 151 to 153: the two divisions, the loss first.\<close>

definition metrics :: "dataloader \<Rightarrow> rat \<Rightarrow> nat \<Rightarrow> error + rat \<times> rat" where
  "metrics dl total_loss total_correct =
     (case py_div total_loss (len_dataloader dl) of
        Inl e \<Rightarrow> Inl e
      | Inr avg_loss \<Rightarrow>
          (case py_div (of_nat total_correct) (len_dataset (dataset dl)) of
             Inl e \<Rightarrow> Inl e
           | Inr accuracy \<Rightarrow> Inr (avg_loss, accuracy)))"

definition train ::
  "('p, 'g, 'o, 'r) torch_env \<Rightarrow> ('p, 'g, 'o, 'r) session \<Rightarrow> dataloader \<Rightarrow> nat list \<Rightarrow>
   ('p, 'g, 'o, 'r) session \<times> (error + rat \<times> rat)" where
  "train env st dl order =
     (case train_loop env (dataset dl) (st\<lparr>training := True\<rparr>) 0 0 (index_batches dl order) of
        (st', Inl e) \<Rightarrow> (st', Inl e)
      | (st', Inr (total_loss, total_correct)) \<Rightarrow> (st', metrics dl total_loss total_correct))"

text \<open>The body of the loop of \<open>evaluate\<close> (lines 141 to 149).\<close>

definition evaluate_batch ::
  "('p, 'g, 'o, 'r) torch_env \<Rightarrow> ('p, 'g, 'o, 'r) session \<Rightarrow> batch \<Rightarrow>
   ('p, 'g, 'o, 'r) session \<times> (error + rat \<times> nat)" where
  "evaluate_batch env st b =
     and_then (model env st b) (\<lambda>st1 outputs.
     and_then (criterion env st1 outputs (batch_labels b)) (\<lambda>st2 loss.
       (st2, case correct_predictions outputs (batch_labels b) of
               Inl e \<Rightarrow> Inl e
             | Inr c \<Rightarrow> Inr (loss, c))))"

fun evaluate_loop ::
  "('p, 'g, 'o, 'r) torch_env \<Rightarrow> sarcasm_dataset \<Rightarrow> ('p, 'g, 'o, 'r) session \<Rightarrow> rat \<Rightarrow> nat \<Rightarrow>
   nat list list \<Rightarrow> ('p, 'g, 'o, 'r) session \<times> (error + rat \<times> nat)" where
  "evaluate_loop env ds st total_loss total_correct [] = (st, Inr (total_loss, total_correct))"
| "evaluate_loop env ds st total_loss total_correct (idxs # rest) =
     (case fetch ds idxs of
        Inl e \<Rightarrow> (st, Inl e)
      | Inr b \<Rightarrow>
          (case evaluate_batch env st b of
             (st', Inl e) \<Rightarrow> (st', Inl e)
           | (st', Inr (loss, c)) \<Rightarrow>
               evaluate_loop env ds st' (total_loss + loss) (total_correct + c) rest))"

definition evaluate ::
  "('p, 'g, 'o, 'r) torch_env \<Rightarrow> ('p, 'g, 'o, 'r) session \<Rightarrow> dataloader \<Rightarrow> nat list \<Rightarrow>
   ('p, 'g, 'o, 'r) session \<times> (error + rat \<times> rat)" where
  "evaluate env st dl order =
     (case evaluate_loop env (dataset dl) (st\<lparr>training := False\<rparr>) 0 0 (index_batches dl order) of
        (st', Inl e) \<Rightarrow> (st', Inl e)
      | (st', Inr (total_loss, total_correct)) \<Rightarrow> (st', metrics dl total_loss total_correct))"

text \<open>
  The losses and the numbers of correct predictions of the batches of one pass of
  \<open>train\<close>, batch by batch, up to the first exception.
\<close>

fun batch_results ::
  "('p, 'g, 'o, 'r) torch_env \<Rightarrow> sarcasm_dataset \<Rightarrow> ('p, 'g, 'o, 'r) session \<Rightarrow>
   nat list list \<Rightarrow> (rat \<times> nat) list" where
  "batch_results env ds st [] = []"
| "batch_results env ds st (idxs # rest) =
     (case fetch ds idxs of
        Inl e \<Rightarrow> []
      | Inr b \<Rightarrow>
          (case train_batch env st b of
             (st', Inl e) \<Rightarrow> []
           | (st', Inr r) \<Rightarrow> r # batch_results env ds st' rest))"

text \<open>The calls \<open>train\<close> makes for a batch of \<open>n\<close> examples.\<close>

definition batch_calls :: "nat \<Rightarrow> call list" where
  "batch_calls n = [ZeroGrad, Forward n, Criterion, Backward, OptimizerStep]"

text \<open>
  The number of examples of a batch whose largest logit, computed in evaluation mode at
  the parameters \<open>p\<close>, is at the position of the label; and its sum over the batches of a
  pass.
\<close>

definition matching_examples :: "('p, 'g, 'o, 'r) torch_env \<Rightarrow> 'p \<Rightarrow> batch \<Rightarrow> nat" where
  "matching_examples env p b =
     (case forward_eval env p (batch_input_ids b) (batch_attention_mask b) of
        Inl e \<Rightarrow> 0
      | Inr outputs \<Rightarrow>
          length (filter (\<lambda>(row, l). int (argmax row) = l) (zip outputs (batch_labels b))))"

definition total_matching_examples ::
  "('p, 'g, 'o, 'r) torch_env \<Rightarrow> 'p \<Rightarrow> sarcasm_dataset \<Rightarrow> nat list list \<Rightarrow> nat" where
  "total_matching_examples env p ds batches =
     sum_list (map (\<lambda>idxs. case fetch ds idxs of
                             Inl e \<Rightarrow> 0
                           | Inr b \<Rightarrow> matching_examples env p b) batches)"

text \<open>
  The count of the claim as it is worded: the number of batches in which the positions
  of the largest logits are the labels.
\<close>

definition matching_batches ::
  "('p, 'g, 'o, 'r) torch_env \<Rightarrow> 'p \<Rightarrow> sarcasm_dataset \<Rightarrow> nat list list \<Rightarrow> nat" where
  "matching_batches env p ds batches =
     length (filter (\<lambda>idxs. case fetch ds idxs of
                              Inl e \<Rightarrow> False
                            | Inr b \<Rightarrow>
                                (case forward_eval env p (batch_input_ids b) (batch_attention_mask b) of
                                   Inl e \<Rightarrow> False
                                 | Inr outputs \<Rightarrow> map (\<lambda>row. int (argmax row)) outputs = batch_labels b))
               batches)"

text \<open>
  Collaborators to evaluate the loops with: a head that gives class 1 the larger logit
  exactly when the token 8 occurs, a loss of 1/4 for every batch, and an optimizer that
  counts its steps in the parameters.
\<close>

definition demo_env :: "(nat, int, nat, nat) torch_env" where
  "demo_env =
     \<lparr>forward_eval = (\<lambda>p ids attn. Inr (map (\<lambda>row. if 8 \<in> set row then [0, 1] else [1, 0]) ids)),
      forward_train =
        (\<lambda>p r ids attn. (Inr (map (\<lambda>row. if 8 \<in> set row then [0, 1] else [1, 0]) ids), Suc r)),
      cross_entropy = (\<lambda>outputs lbls. Inr (1/4)),
      gradient = (\<lambda>p r b. Inr 1),
      accumulate = (\<lambda>g g'. g + g'),
      adamw_step = (\<lambda>os p g. Inr (Suc os, Suc p))\<rparr>"

definition demo_session :: "(nat, int, nat, nat) session" where
  "demo_session =
     \<lparr>parameters = 0, grad = None, optimizer_state = 0, training = True, generator = 0,
      calls = []\<rparr>"

definition two_records :: sarcasm_dataset where
  "two_records =
     \<lparr>data = [(JString ''a'', JInt 0), (JString ''b'', JInt 1)],
      tokenizer = demo_tokenizer, max_length = 4\<rparr>"

definition demo_loader :: dataloader where
  "demo_loader = \<lparr>dataset = two_records, batch_size = 2, shuffle = False\<rparr>"

definition shuffled_loader :: dataloader where
  "shuffled_loader = \<lparr>dataset = two_records, batch_size = 2, shuffle = True\<rparr>"

definition empty_loader :: dataloader where
  "empty_loader =
     \<lparr>dataset = \<lparr>data = [], tokenizer = demo_tokenizer, max_length = 4\<rparr>,
      batch_size = 2, shuffle = False\<rparr>"

definition three_records_loader :: dataloader where
  "three_records_loader =
     \<lparr>dataset =
        \<lparr>data = [(JString ''a'', JInt 0), (JString ''b'', JInt 1), (JString ''b'', JInt 0)],
         tokenizer = demo_tokenizer, max_length = 4\<rparr>,
      batch_size = 2, shuffle = True\<rparr>"

section \<open>The epochs of \<open>main\<close> (lines 176 to 187)\<close>

text \<open>
  One epoch trains, evaluates on the validation loader, steps the learning-rate
  scheduler (a collaborator that acts on the optimizer's state) and applies the
  checkpoint policy. What the run draws from outside in an epoch is the order of the
  training sampler and the behaviour of the storage. An exception of \<open>train\<close> or
  \<open>evaluate\<close> leaves \<open>main\<close> like one of \<open>torch.save\<close>.
\<close>

fun main_loop ::
  "('p, 'g, 'o, 'r) torch_env \<Rightarrow> ('o \<Rightarrow> 'o) \<Rightarrow> dataloader \<Rightarrow> dataloader \<Rightarrow> nat \<Rightarrow>
   (nat list \<times> disk) list \<Rightarrow> ('p, 'g, 'o, 'r) session \<Rightarrow> 'p run_state \<Rightarrow>
   ('p, 'g, 'o, 'r) session \<times> 'p run_state" where
  "main_loop env scheduler_step train_loader val_loader epoch [] st run = (st, run)"
| "main_loop env scheduler_step train_loader val_loader epoch ((order, dsk) # rest) st run =
     (case train env st train_loader order of
        (st1, Inl e) \<Rightarrow> (st1, run\<lparr>raised := Some e\<rparr>)
      | (st1, Inr (train_loss, train_accuracy)) \<Rightarrow>
          (case evaluate env st1 val_loader [] of
             (st2, Inl e) \<Rightarrow> (st2, run\<lparr>raised := Some e\<rparr>)
           | (st2, Inr (val_loss, val_acc)) \<Rightarrow>
               (let st3 = st2\<lparr>optimizer_state := scheduler_step (optimizer_state st2)\<rparr>;
                    run' = checkpoint_policy epoch
                      \<lparr>state_dict = parameters st3, val_accuracy = val_acc, storage = dsk\<rparr> run
                in case raised run' of
                     Some e \<Rightarrow> (st3, run')
                   | None \<Rightarrow>
                       main_loop env scheduler_step train_loader val_loader (Suc epoch) rest
                         st3 run')))"

text \<open>
  What the epochs hand to the checkpoint policy, epoch by epoch, up to the first
  exception of \<open>train\<close> or \<open>evaluate\<close>.
\<close>

fun epoch_outcomes ::
  "('p, 'g, 'o, 'r) torch_env \<Rightarrow> ('o \<Rightarrow> 'o) \<Rightarrow> dataloader \<Rightarrow> dataloader \<Rightarrow>
   (nat list \<times> disk) list \<Rightarrow> ('p, 'g, 'o, 'r) session \<Rightarrow> 'p epoch_outcome list" where
  "epoch_outcomes env scheduler_step train_loader val_loader [] st = []"
| "epoch_outcomes env scheduler_step train_loader val_loader ((order, dsk) # rest) st =
     (case train env st train_loader order of
        (st1, Inl e) \<Rightarrow> []
      | (st1, Inr (train_loss, train_accuracy)) \<Rightarrow>
          (case evaluate env st1 val_loader [] of
             (st2, Inl e) \<Rightarrow> []
           | (st2, Inr (val_loss, val_acc)) \<Rightarrow>
               (let st3 = st2\<lparr>optimizer_state := scheduler_step (optimizer_state st2)\<rparr>
                in \<lparr>state_dict = parameters st3, val_accuracy = val_acc, storage = dsk\<rparr> #
                   epoch_outcomes env scheduler_step train_loader val_loader rest st3)))"

section \<open>One epoch of training in the words of the specification\<close>

text \<open>
  What the specification says of one batch in training mode, written on the
  collaborators themselves: the logits of the head on the batch, the cross-entropy loss of
  the logits against the labels, the gradient of this batch alone (what was stored before
  is cleared), one update of the optimizer with that gradient, and the number of rows whose
  largest logit is at the position of the label. The result is the state after the batch,
  the loss and that number; \<open>None\<close> when a collaborator raises.
\<close>

definition batch_step ::
  "('p, 'g, 'o, 'r) torch_env \<Rightarrow> ('p, 'g, 'o, 'r) session \<Rightarrow> batch \<Rightarrow>
   (('p, 'g, 'o, 'r) session \<times> rat \<times> nat) option" where
  "batch_step env st b =
     (case forward_train env (parameters st) (generator st)
             (batch_input_ids b) (batch_attention_mask b) of
        (Inl e, g) \<Rightarrow> None
      | (Inr logits, g) \<Rightarrow>
          (if length logits \<noteq> length (batch_labels b) \<or> [] \<in> set logits then None
           else
             (case cross_entropy env logits (batch_labels b) of
                Inl e \<Rightarrow> None
              | Inr loss \<Rightarrow>
                  (case gradient env (parameters st) (generator st) b of
                     Inl e \<Rightarrow> None
                   | Inr gr \<Rightarrow>
                       (case adamw_step env (optimizer_state st) (parameters st) (Some gr) of
                          Inl e \<Rightarrow> None
                        | Inr (os, p) \<Rightarrow>
                            Some (st\<lparr>parameters := p, grad := Some gr, optimizer_state := os,
                                      generator := g,
                                      calls := calls st @ batch_calls (length (batch_input_ids b))\<rparr>,
                                  loss,
                                  length (filter (\<lambda>(row, l). int (argmax row) = l)
                                            (zip logits (batch_labels b)))))))))"

text \<open>
  The batches of an epoch, one after the other, each on the state the one before left:
  the state after the last batch, and the loss and the number of correct predictions of
  every batch.
\<close>

fun epoch_steps ::
  "('p, 'g, 'o, 'r) torch_env \<Rightarrow> sarcasm_dataset \<Rightarrow> ('p, 'g, 'o, 'r) session \<Rightarrow>
   nat list list \<Rightarrow> (('p, 'g, 'o, 'r) session \<times> (rat \<times> nat) list) option" where
  "epoch_steps env ds st [] = Some (st, [])"
| "epoch_steps env ds st (idxs # rest) =
     (case fetch ds idxs of
        Inl e \<Rightarrow> None
      | Inr b \<Rightarrow>
          (case batch_step env st b of
             None \<Rightarrow> None
           | Some (st1, loss, c) \<Rightarrow>
               (case epoch_steps env ds st1 rest of
                  None \<Rightarrow> None
                | Some (st', rs) \<Rightarrow> Some (st', (loss, c) # rs))))"

section \<open>The classifier heads (lines 44 to 109), on the shapes of their tensors\<close>

text \<open>
  The claim about the heads is about shapes, so a tensor is its shape here, and every
  library operation is what it does to shapes, with the cases in which it raises.
  Modelled from the spec: the encoder and the operations of the tensor library are
  library calls; their shape rules are those of their documentation.
\<close>

type_synonym shape = "nat list"

record bert_config =
  hidden_size :: nat
  max_position_embeddings :: nat

text \<open>
  The encoder takes token ids and a mask of one shape \<open>(B, L)\<close>, with a sequence that is
  not empty and not longer than its position table, and returns the hidden states
  \<open>(B, L, hidden_size)\<close> and the pooled output \<open>(B, hidden_size)\<close>.
\<close>

definition bert :: "bert_config \<Rightarrow> shape \<Rightarrow> shape \<Rightarrow> error + shape \<times> shape" where
  "bert cfg ids attn =
     (case ids of
        [B, L] \<Rightarrow>
          (if attn = ids \<and> 0 < L \<and> L \<le> max_position_embeddings cfg
           then Inr ([B, L, hidden_size cfg], [B, hidden_size cfg])
           else Inl RuntimeError)
      | _ \<Rightarrow> Inl RuntimeError)"

definition unsqueeze :: "shape \<Rightarrow> nat \<Rightarrow> error + shape" where
  "unsqueeze s d = (if d \<le> length s then Inr (take d s @ [1] @ drop d s) else Inl IndexError)"

definition squeeze :: "shape \<Rightarrow> nat \<Rightarrow> error + shape" where
  "squeeze s d =
     (if d < length s then Inr (if s ! d = 1 then take d s @ drop (Suc d) s else s)
      else Inl IndexError)"

definition size_dim :: "shape \<Rightarrow> nat \<Rightarrow> error + nat" where
  "size_dim s d = (if d < length s then Inr (s ! d) else Inl IndexError)"

text \<open>
  \<open>nn.Conv2d(in, out, (kh, kw))\<close> without padding on a batch \<open>(B, in, H, W)\<close>: the kernel_size
  must fit the input.
\<close>

definition conv2d :: "nat \<Rightarrow> nat \<Rightarrow> nat \<times> nat \<Rightarrow> shape \<Rightarrow> error + shape" where
  "conv2d in_channels out_channels kernel_size s =
     (case (kernel_size, s) of
        ((kh, kw), [B, C, H, W]) \<Rightarrow>
          (if C = in_channels \<and> 0 < kh \<and> 0 < kw \<and> kh \<le> H \<and> kw \<le> W
           then Inr [B, out_channels, H - kh + 1, W - kw + 1]
           else Inl RuntimeError)
      | _ \<Rightarrow> Inl RuntimeError)"

text \<open>\<open>torch.max_pool1d(x, k)\<close> on \<open>(B, C, L)\<close>; the stride is the kernel_size size.\<close>

definition max_pool1d :: "shape \<Rightarrow> nat \<Rightarrow> error + shape" where
  "max_pool1d s k =
     (case s of
        [B, C, L] \<Rightarrow> (if 0 < k \<and> k \<le> L then Inr [B, C, (L - k) div k + 1] else Inl RuntimeError)
      | _ \<Rightarrow> Inl RuntimeError)"

text \<open>
  \<open>torch.cat(xs, 1)\<close>: a list that is not empty, of tensors that agree outside
  dimension 1.
\<close>

definition cat1 :: "shape list \<Rightarrow> error + shape" where
  "cat1 xs =
     (case xs of
        [] \<Rightarrow> Inl RuntimeError
      | s # rest \<Rightarrow>
          (if 1 < length s \<and> list_all (\<lambda>t. length t = length s \<and> t[1 := 0] = s[1 := 0]) rest
           then Inr (s[1 := sum_list (map (\<lambda>t. t ! 1) xs)])
           else Inl RuntimeError))"

text \<open>\<open>nn.Linear(in, out)\<close> works on the last dimension.\<close>

definition linear_layer :: "nat \<Rightarrow> nat \<Rightarrow> shape \<Rightarrow> error + shape" where
  "linear_layer in_features out_features s =
     (if s \<noteq> [] \<and> last s = in_features then Inr (butlast s @ [out_features])
      else Inl RuntimeError)"

text \<open>
  The output of \<open>nn.LSTM\<close> and of \<open>nn.RNN\<close> with \<open>batch_first=True\<close> on \<open>(B, L, input)\<close>;
  the sequence must not be empty.
\<close>

definition recurrent :: "nat \<Rightarrow> nat \<Rightarrow> shape \<Rightarrow> error + shape" where
  "recurrent input_size hidden s =
     (case s of
        [B, L, F] \<Rightarrow> (if F = input_size \<and> 0 < L then Inr [B, L, hidden] else Inl RuntimeError)
      | _ \<Rightarrow> Inl RuntimeError)"

definition mean_dim :: "shape \<Rightarrow> nat \<Rightarrow> error + shape" where
  "mean_dim s d = (if d < length s then Inr (take d s @ drop (Suc d) s) else Inl IndexError)"

text \<open>\<open>torch.relu\<close> and \<open>nn.Dropout\<close> keep the shape.\<close>

definition relu :: "shape \<Rightarrow> shape" where
  "relu s = s"

definition dropout :: "shape \<Rightarrow> shape" where
  "dropout s = s"

text \<open>The next statement on a value; an exception ends the call.\<close>

definition next_on :: "error + 'a \<Rightarrow> ('a \<Rightarrow> error + 'b) \<Rightarrow> error + 'b" where
  "next_on r f = (case r of Inl e \<Rightarrow> Inl e | Inr x \<Rightarrow> f x)"

text \<open>The four heads with the arguments of their constructors.\<close>

record bert_cnn =
  cnn_bert :: bert_config
  cnn_num_classes :: nat
  num_filters :: nat
  filter_sizes :: "nat list"

record bert_mlp =
  mlp_bert :: bert_config
  mlp_num_classes :: nat
  mlp_hidden_size :: nat

record bert_lstm =
  lstm_bert :: bert_config
  lstm_num_classes :: nat
  lstm_hidden_size :: nat

record bert_rnn =
  rnn_bert :: bert_config
  rnn_num_classes :: nat
  rnn_hidden_size :: nat

text \<open>\<open>BertCNN.forward\<close> (lines 54 to 62).\<close>

definition BertCNN_forward :: "bert_cnn \<Rightarrow> shape \<Rightarrow> shape \<Rightarrow> error + shape" where
  "BertCNN_forward m ids attn =
     next_on (bert (cnn_bert m) ids attn) (\<lambda>(last_hidden_state, pooler_output).
     next_on (unsqueeze last_hidden_state 1) (\<lambda>x.
     next_on (sequence (map (\<lambda>k.
         next_on (conv2d 1 (num_filters m) (k, hidden_size (cnn_bert m)) x) (\<lambda>c.
           squeeze (relu c) 3)) (filter_sizes m))) (\<lambda>xs.
     next_on (sequence (map (\<lambda>i.
         next_on (size_dim i 2) (\<lambda>n.
         next_on (max_pool1d i n) (\<lambda>p.
           squeeze p 2))) xs)) (\<lambda>ps.
     next_on (cat1 ps) (\<lambda>x.
       linear_layer (length (filter_sizes m) * num_filters m) (cnn_num_classes m) (dropout x))))))"

text \<open>\<open>BertMLP.forward\<close> (lines 72 to 77).\<close>

definition BertMLP_forward :: "bert_mlp \<Rightarrow> shape \<Rightarrow> shape \<Rightarrow> error + shape" where
  "BertMLP_forward m ids attn =
     next_on (bert (mlp_bert m) ids attn) (\<lambda>(last_hidden_state, pooler_output).
     next_on (linear_layer (hidden_size (mlp_bert m)) (mlp_hidden_size m) pooler_output) (\<lambda>h.
       linear_layer (mlp_hidden_size m) (mlp_num_classes m) (dropout (relu h))))"

text \<open>\<open>BertLSTM.forward\<close> (lines 87 to 93).\<close>

definition BertLSTM_forward :: "bert_lstm \<Rightarrow> shape \<Rightarrow> shape \<Rightarrow> error + shape" where
  "BertLSTM_forward m ids attn =
     next_on (bert (lstm_bert m) ids attn) (\<lambda>(last_hidden_state, pooler_output).
     next_on (recurrent (hidden_size (lstm_bert m)) (lstm_hidden_size m) last_hidden_state)
       (\<lambda>lstm_output.
     next_on (mean_dim lstm_output 1) (\<lambda>pooled_output.
       linear_layer (lstm_hidden_size m) (lstm_num_classes m) (dropout pooled_output))))"

text \<open>\<open>BertRNN.forward\<close> (lines 103 to 109).\<close>

definition BertRNN_forward :: "bert_rnn \<Rightarrow> shape \<Rightarrow> shape \<Rightarrow> error + shape" where
  "BertRNN_forward m ids attn =
     next_on (bert (rnn_bert m) ids attn) (\<lambda>(last_hidden_state, pooler_output).
     next_on (recurrent (hidden_size (rnn_bert m)) (rnn_hidden_size m) last_hidden_state)
       (\<lambda>rnn_output.
     next_on (mean_dim rnn_output 1) (\<lambda>pooled_output.
       linear_layer (rnn_hidden_size m) (rnn_num_classes m) (dropout pooled_output))))"

text \<open>The heads as the constructors build them by default, on \<open>bert-base-uncased\<close>.\<close>

definition bert_base_uncased :: bert_config where
  "bert_base_uncased = \<lparr>hidden_size = 768, max_position_embeddings = 512\<rparr>"

definition default_cnn :: bert_cnn where
  "default_cnn =
     \<lparr>cnn_bert = bert_base_uncased, cnn_num_classes = 2, num_filters = 100,
      filter_sizes = [3, 4, 5]\<rparr>"

definition default_mlp :: bert_mlp where
  "default_mlp = \<lparr>mlp_bert = bert_base_uncased, mlp_num_classes = 2, mlp_hidden_size = 50\<rparr>"

definition default_lstm :: bert_lstm where
  "default_lstm = \<lparr>lstm_bert = bert_base_uncased, lstm_num_classes = 2, lstm_hidden_size = 50\<rparr>"

definition default_rnn :: bert_rnn where
  "default_rnn = \<lparr>rnn_bert = bert_base_uncased, rnn_num_classes = 2, rnn_hidden_size = 50\<rparr>"

text \<open>Convolutional heads on degenerate arguments: no filter, and an encoder of width 0.\<close>

definition cnn_without_filters :: bert_cnn where
  "cnn_without_filters = default_cnn\<lparr>filter_sizes := []\<rparr>"

definition cnn_zero_width :: bert_cnn where
  "cnn_zero_width =
     default_cnn\<lparr>cnn_bert := \<lparr>hidden_size = 0, max_position_embeddings = 512\<rparr>\<rparr>"

section \<open>Properties\<close>

subsection \<open>The checkpoint policy\<close>

lemma improvements_Nil: "improvements b [] = []"
  by (simp add: improvements_def)

lemma improvements_Cons:
  "improvements b (v # vs) =
     (if b < v then 0 # map Suc (improvements v vs) else map Suc (improvements b vs))"
proof -
  have upt: "[0..<length (v # vs)] = 0 # map Suc [0..<length vs]"
    by (simp add: upt_conv_Cons map_Suc_upt del: upt_Suc)
  show ?thesis
  proof (cases "b < v")
    case True
    then have "\<And>k. (b < vs ! k \<and> v < vs ! k \<and> (\<forall>x\<in>set (take k vs). x < vs ! k)) =
        (v < vs ! k \<and> (\<forall>x\<in>set (take k vs). x < vs ! k))"
      by auto
    with True show ?thesis
      unfolding improvements_def upt by (simp add: filter_map comp_def)
  next
    case False
    then have "\<And>k. (b < vs ! k \<and> v < vs ! k \<and> (\<forall>x\<in>set (take k vs). x < vs ! k)) =
        (b < vs ! k \<and> (\<forall>x\<in>set (take k vs). x < vs ! k))"
      by auto
    with False show ?thesis
      unfolding improvements_def upt by (simp add: filter_map comp_def)
  qed
qed

lemma improvements_mem:
  "k \<in> set (improvements b vs) \<longleftrightarrow>
     k < length vs \<and> b < vs ! k \<and> (\<forall>j<k. vs ! j < vs ! k)"
proof -
  have "k < length vs \<Longrightarrow> (\<forall>x\<in>set (take k vs). x < vs ! k) = (\<forall>j<k. vs ! j < vs ! k)"
    by (force simp: in_set_conv_nth)
  then show ?thesis
    by (auto simp: improvements_def)
qed

lemma length_improvements: "length (improvements b vs) = strict_increases b vs"
  by (induction vs arbitrary: b) (simp_all add: improvements_Nil improvements_Cons)

lemma checkpoint_policy_healthy:
  "storage out = Healthy \<Longrightarrow> checkpoint_policy e out st =
     (if best_accuracy st < val_accuracy out
      then st\<lparr>best_accuracy := val_accuracy out, best_model_pt := Snapshot (state_dict out),
              saved_epochs := saved_epochs st @ [e]\<rparr>
      else st)"
  by (simp add: checkpoint_policy_def)

lemma epoch_loop_saved:
  "\<forall>out\<in>set outs. storage out = Healthy \<Longrightarrow> raised st = None \<Longrightarrow>
   saved_epochs (epoch_loop e outs st) =
     saved_epochs st @ map (\<lambda>k. e + k) (improvements (best_accuracy st) (map val_accuracy outs))"
proof (induction outs arbitrary: e st)
  case Nil
  then show ?case by (simp add: improvements_Nil)
next
  case (Cons out outs)
  then show ?case
    by (simp add: improvements_Cons checkpoint_policy_healthy comp_def)
qed

lemma epoch_loop_raised:
  "\<forall>out\<in>set outs. storage out = Healthy \<Longrightarrow> raised st = None \<Longrightarrow>
   raised (epoch_loop e outs st) = None"
  by (induction outs arbitrary: e st) (simp_all add: checkpoint_policy_healthy)

lemma epoch_loop_file:
  "\<forall>out\<in>set outs. storage out = Healthy \<Longrightarrow> raised st = None \<Longrightarrow>
   best_model_pt (epoch_loop e outs st) =
     (case improvements (best_accuracy st) (map val_accuracy outs) of
        [] \<Rightarrow> best_model_pt st
      | k # ks \<Rightarrow> Snapshot (state_dict (outs ! last (k # ks))))"
proof (induction outs arbitrary: e st)
  case Nil
  then show ?case by (simp add: improvements_Nil)
next
  case (Cons out outs)
  then show ?case
    by (simp add: improvements_Cons checkpoint_policy_healthy last_map split: list.splits)
qed

text \<open>
  C1: when the storage accepts every write, the run ends without an exception and a
  snapshot is written at the end of epoch \<open>k\<close> exactly when the validation accuracy of
  epoch \<open>k\<close> is above zero, the initial value of \<open>best_accuracy\<close>, and above the
  validation accuracy of every earlier epoch. No epoch writes twice, the number of writes
  is the number of strict increases of the best accuracy so far, and the file holds the
  snapshot of the last write only: each write replaces what was there.
\<close>

theorem checkpoint_iff_strict_improvement:
  assumes "\<forall>out\<in>set outs. storage out = Healthy"
  shows "raised (epoch_loop 0 outs initial_run) = None \<and>
    (\<forall>k. k \<in> set (saved_epochs (epoch_loop 0 outs initial_run)) \<longleftrightarrow>
       k < length outs \<and> 0 < val_accuracy (outs ! k) \<and>
       (\<forall>j<k. val_accuracy (outs ! j) < val_accuracy (outs ! k))) \<and>
    distinct (saved_epochs (epoch_loop 0 outs initial_run)) \<and>
    length (saved_epochs (epoch_loop 0 outs initial_run)) =
      strict_increases 0 (map val_accuracy outs) \<and>
    best_model_pt (epoch_loop 0 outs initial_run) =
      (case saved_epochs (epoch_loop 0 outs initial_run) of
         [] \<Rightarrow> Absent
       | k # ks \<Rightarrow> Snapshot (state_dict (outs ! last (k # ks))))"
proof -
  have init: "raised (initial_run :: 'a run_state) = None"
    "best_accuracy (initial_run :: 'a run_state) = 0"
    "saved_epochs (initial_run :: 'a run_state) = []"
    "best_model_pt (initial_run :: 'a run_state) = Absent"
    by (simp_all add: initial_run_def)
  have saved: "saved_epochs (epoch_loop 0 outs initial_run) =
      improvements 0 (map val_accuracy outs)"
    using epoch_loop_saved [OF assms init(1), of 0] by (simp add: init)
  have mem: "\<And>k. k \<in> set (improvements 0 (map val_accuracy outs)) \<longleftrightarrow>
       k < length outs \<and> 0 < val_accuracy (outs ! k) \<and>
       (\<forall>j<k. val_accuracy (outs ! j) < val_accuracy (outs ! k))"
    by (auto simp: improvements_mem)
  have dist: "distinct (improvements 0 (map val_accuracy outs))"
    by (simp add: improvements_def)
  show ?thesis
    unfolding saved
    using epoch_loop_raised [OF assms init(1), of 0] epoch_loop_file [OF assms init(1), of 0]
    by (simp add: mem dist length_improvements init split: list.splits)
qed

text \<open>
  A run of three epochs with accuracies 1/2, 1/2 and 3/4: epochs 0 and 2 write, and the
  file ends with the parameters of epoch 2.
\<close>

theorem checkpoint_iff_strict_improvement_witness:
  "storage (demo_outcomes ! 0) = Healthy \<and> storage (demo_outcomes ! 1) = Healthy \<and>
   storage (demo_outcomes ! 2) = Healthy \<and>
   raised (epoch_loop 0 demo_outcomes initial_run) = None \<and>
   saved_epochs (epoch_loop 0 demo_outcomes initial_run) = [0, 2] \<and>
   length (saved_epochs (epoch_loop 0 demo_outcomes initial_run)) =
     strict_increases 0 (map val_accuracy demo_outcomes) \<and>
   best_model_pt (epoch_loop 0 demo_outcomes initial_run) = Snapshot 12"
  using checkpoint_iff_strict_improvement [of demo_outcomes]
  by (simp add: demo_outcomes_def initial_run_def checkpoint_policy_def)

text \<open>
  C10: the update is not atomic. When the validation accuracy exceeds \<open>best_accuracy\<close>
  and the write fails, the exception leaves \<open>main\<close> with \<open>best_accuracy\<close> already set
  to the new accuracy, while no write of this epoch completed: the file is what it was, or
  the remains of the broken write. The remaining epochs do not run.
\<close>

theorem best_accuracy_advanced_before_save:
  assumes "best_accuracy st < val_accuracy out" and "storage out \<noteq> Healthy"
  shows "best_accuracy (checkpoint_policy epoch out st) = val_accuracy out \<and>
    raised (checkpoint_policy epoch out st) = Some OSError \<and>
    saved_epochs (checkpoint_policy epoch out st) = saved_epochs st \<and>
    (best_model_pt (checkpoint_policy epoch out st) = best_model_pt st \<or>
     best_model_pt (checkpoint_policy epoch out st) = Truncated) \<and>
    epoch_loop epoch (out # outs) st = checkpoint_policy epoch out st"
  using assms by (cases "storage out") (simp_all add: checkpoint_policy_def)

text \<open>A first epoch with accuracy 1/2 whose write breaks off.\<close>

theorem best_accuracy_advanced_before_save_witness:
  "best_accuracy (initial_run :: nat run_state) < val_accuracy demo_failure \<and>
   storage demo_failure \<noteq> Healthy \<and>
   best_accuracy (checkpoint_policy 0 demo_failure initial_run) = 1/2 \<and>
   raised (checkpoint_policy 0 demo_failure initial_run) = Some OSError \<and>
   saved_epochs (checkpoint_policy 0 demo_failure initial_run) = [] \<and>
   best_model_pt (checkpoint_policy 0 demo_failure initial_run) = Truncated"
  using best_accuracy_advanced_before_save [of initial_run demo_failure 0 "[]"]
  by (simp add: demo_failure_def initial_run_def checkpoint_policy_def)

subsection \<open>The dataset adapter\<close>

lemma subscript_error: "subscript v k = Inl e \<Longrightarrow> e = KeyError \<or> e = TypeError"
  by (cases v) (auto split: option.splits)

lemma read_lines_Cons_bad:
  "bad_line w line \<Longrightarrow> \<exists>e. read_lines w (line # rest) acc = Inl e \<and> parse_error e"
  by (auto simp: bad_line_def parse_error_def isl_def dest: subscript_error
      split: option.splits sum.splits)

lemma read_lines_Cons_good:
  "\<not> bad_line w line \<Longrightarrow>
     \<exists>h l. read_lines w (line # rest) acc = read_lines w rest (acc @ [(h, l)])"
  by (auto simp: bad_line_def split: option.splits sum.splits)


lemma read_lines_ok:
  "read_lines w lines acc = Inr d \<Longrightarrow>
     length d = length acc + length lines \<and> (\<forall>line\<in>set lines. \<not> bad_line w line)"
proof (induction lines arbitrary: acc)
  case Nil
  then show ?case by simp
next
  case (Cons line rest)
  show ?case
  proof (cases "bad_line w line")
    case True
    with read_lines_Cons_bad [OF True, of rest acc] Cons.prems show ?thesis by auto
  next
    case False
    from read_lines_Cons_good [OF False, of rest acc] obtain h l where
      "read_lines w (line # rest) acc = read_lines w rest (acc @ [(h, l)])" by blast
    with Cons.prems Cons.IH [of "acc @ [(h, l)]"] False show ?thesis by auto
  qed
qed







subsection \<open>The batch loader\<close>

lemma chunks_Nil: "chunks n [] = []"
  by (simp add: chunks.simps)

lemma chunks_step: "0 < n \<Longrightarrow> xs \<noteq> [] \<Longrightarrow> chunks n xs = take n xs # chunks n (drop n xs)"
  by (subst chunks.simps) simp

lemma concat_chunks: "0 < n \<Longrightarrow> concat (chunks n xs) = xs"
proof (induction n xs rule: chunks.induct)
  case (1 n xs)
  then show ?case
    by (cases "xs = []") (simp_all add: chunks_Nil chunks_step)
qed

lemma ceil_div_step:
  fixes n m :: nat
  assumes "0 < n" and "0 < m"
  shows "(m + n - 1) div n = Suc ((m - n + n - 1) div n)"
proof -
  obtain k where m: "m = Suc k" using assms(2) by (cases m) auto
  have a: "(m + n - 1) div n = Suc (k div n)"
    unfolding m using assms(1) by simp
  have b: "(m - n + n - 1) div n = k div n"
  proof (cases "n \<le> m")
    case True
    then show ?thesis unfolding m by simp
  next
    case False
    then have "m - n + n - 1 < n" "k < n" using assms(1) unfolding m by arith+
    then show ?thesis by simp
  qed
  show ?thesis by (simp only: a b)
qed

lemma length_chunks: "0 < n \<Longrightarrow> length (chunks n xs) = (length xs + n - 1) div n"
proof (induction n xs rule: chunks.induct)
  case (1 n xs)
  show ?case
  proof (cases "xs = []")
    case True
    with 1(2) show ?thesis by (simp add: chunks_Nil)
  next
    case False
    then have pos: "0 < length xs" by simp
    from 1(1) [OF _ 1(2)] False 1(2)
    have ih: "length (chunks n (drop n xs)) = (length xs - n + n - 1) div n"
      by simp
    show ?thesis
      using ih ceil_div_step [OF 1(2) pos] False 1(2) by (simp add: chunks_step)
  qed
qed

lemma chunks_sizes: "0 < n \<Longrightarrow> c \<in> set (chunks n xs) \<Longrightarrow> 0 < length c \<and> length c \<le> n"
proof (induction n xs rule: chunks.induct)
  case (1 n xs)
  show ?case
  proof (cases "xs = []")
    case True
    with 1(3) show ?thesis by (simp add: chunks_Nil)
  next
    case False
    with 1(2,3) have "c = take n xs \<or> c \<in> set (chunks n (drop n xs))"
      by (simp add: chunks_step)
    then show ?thesis
    proof
      assume "c = take n xs"
      with False 1(2) show ?thesis by simp
    next
      assume "c \<in> set (chunks n (drop n xs))"
      with 1(1) [OF _ 1(2)] False 1(2) show ?thesis by simp
    qed
  qed
qed

subsection \<open>One batch\<close>

lemma and_then_Inl [simp]: "and_then (s, Inl e) f = (s, Inl e)"
  by (simp add: and_then_def)

lemma and_then_Inr [simp]: "and_then (s, Inr a) f = f s a"
  by (simp add: and_then_def)

lemma sequence_length: "sequence rs = Inr xs \<Longrightarrow> length xs = length rs"
  by (induction rs arbitrary: xs) (auto split: sum.splits)

lemma fetch_length:
  "fetch ds idxs = Inr b \<Longrightarrow>
     length (batch_labels b) = length idxs \<and> length (batch_input_ids b) = length idxs"
  by (auto simp: fetch_def collate_def dest: sequence_length split: sum.splits if_splits)

lemma correct_predictions_le:
  "correct_predictions outputs lbls = Inr c \<Longrightarrow> c \<le> length lbls"
proof -
  assume a: "correct_predictions outputs lbls = Inr c"
  then have "c = length (filter (\<lambda>(row, l). int (argmax row) = l) (zip outputs lbls))"
    by (simp add: correct_predictions_def split: if_splits)
  also have "\<dots> \<le> length (zip outputs lbls)" by (rule length_filter_le)
  also have "\<dots> \<le> length lbls" by simp
  finally show ?thesis .
qed

lemma model_eval:
  "\<not> training st \<Longrightarrow> model env st b =
     (st\<lparr>calls := calls st @ [Forward (length (batch_input_ids b))]\<rparr>,
      forward_eval env (parameters st) (batch_input_ids b) (batch_attention_mask b))"
  by (simp add: model_def)

lemma evaluate_batch_frame:
  "evaluate_batch env st b = (st', r) \<Longrightarrow>
     parameters st' = parameters st \<and> training st' = training st \<and> grad st' = grad st \<and>
     optimizer_state st' = optimizer_state st"
  by (auto simp: evaluate_batch_def and_then_def model_def criterion_def Let_def
      split: sum.splits prod.splits if_splits)

lemma evaluate_batch_eval:
  "\<not> training st \<Longrightarrow> evaluate_batch env st b =
     (st\<lparr>calls := calls st @ [Forward (length (batch_input_ids b))] @
        (case forward_eval env (parameters st) (batch_input_ids b) (batch_attention_mask b) of
           Inl e \<Rightarrow> [] | Inr outputs \<Rightarrow> [Criterion])\<rparr>,
      case forward_eval env (parameters st) (batch_input_ids b) (batch_attention_mask b) of
        Inl e \<Rightarrow> Inl e
      | Inr outputs \<Rightarrow>
          (case (if length outputs \<noteq> length (batch_labels b) then Inl ValueError
                 else cross_entropy env outputs (batch_labels b)) of
             Inl e \<Rightarrow> Inl e
           | Inr loss \<Rightarrow>
               (case correct_predictions outputs (batch_labels b) of
                  Inl e \<Rightarrow> Inl e
                | Inr c \<Rightarrow> Inr (loss, c))))"
  by (simp add: evaluate_batch_def model_eval criterion_def split: sum.splits)

subsection \<open>The evaluation loop\<close>

lemma evaluate_loop_frame:
  "evaluate_loop env ds st acc_loss acc_correct bs = (st', r) \<Longrightarrow>
     parameters st' = parameters st \<and> training st' = training st"
proof (induction bs arbitrary: st acc_loss acc_correct)
  case Nil
  then show ?case by simp
next
  case (Cons idxs rest)
  show ?case
  proof (cases "fetch ds idxs")
    case (Inl e)
    with Cons.prems show ?thesis by simp
  next
    case (Inr b)
    obtain st1 r1 where eb: "evaluate_batch env st b = (st1, r1)"
      by (cases "evaluate_batch env st b")
    note fr = evaluate_batch_frame [OF eb]
    show ?thesis
    proof (cases r1)
      case (Inl e)
      with Cons.prems Inr eb fr show ?thesis by simp
    next
      case r: (Inr lc)
      obtain loss c where lc: "lc = (loss, c)" by (cases lc)
      from Cons.prems Inr eb r lc
      have "evaluate_loop env ds st1 (acc_loss + loss) (acc_correct + c) rest = (st', r)" by simp
      from Cons.IH [OF this] fr show ?thesis by simp
    qed
  qed
qed

lemma evaluate_batch_snd:
  "\<not> training st \<Longrightarrow> \<not> training st2 \<Longrightarrow> parameters st = parameters st2 \<Longrightarrow>
     snd (evaluate_batch env st b) = snd (evaluate_batch env st2 b)"
  by (simp add: evaluate_batch_eval)

lemma evaluate_loop_snd:
  "\<not> training st \<Longrightarrow> \<not> training st2 \<Longrightarrow> parameters st = parameters st2 \<Longrightarrow>
     snd (evaluate_loop env ds st acc_loss acc_correct bs) = snd (evaluate_loop env ds st2 acc_loss acc_correct bs)"
proof (induction bs arbitrary: st st2 acc_loss acc_correct)
  case Nil
  then show ?case by simp
next
  case (Cons idxs rest)
  show ?case
  proof (cases "fetch ds idxs")
    case (Inl e)
    then show ?thesis by simp
  next
    case (Inr b)
    obtain st1 r1 where eb: "evaluate_batch env st b = (st1, r1)"
      by (cases "evaluate_batch env st b")
    obtain st3 r3 where eb2: "evaluate_batch env st2 b = (st3, r3)"
      by (cases "evaluate_batch env st2 b")
    from evaluate_batch_snd [OF Cons.prems, of env b] eb eb2 have same: "r3 = r1" by simp
    from evaluate_batch_frame [OF eb] evaluate_batch_frame [OF eb2] Cons.prems
    have fr: "\<not> training st1" "\<not> training st3" "parameters st1 = parameters st3" by simp_all
    show ?thesis
    proof (cases r1)
      case (Inl e)
      with Inr eb eb2 same show ?thesis by simp
    next
      case r: (Inr lc)
      obtain loss c where lc: "lc = (loss, c)" by (cases lc)
      from Cons.IH [OF fr, of "acc_loss + loss" "acc_correct + c"] Inr eb eb2 same r lc
      show ?thesis by simp
    qed
  qed
qed

lemma evaluate_alt:
  "evaluate env st dl order =
     (fst (evaluate_loop env (dataset dl) (st\<lparr>training := False\<rparr>) 0 0 (index_batches dl order)),
      case snd (evaluate_loop env (dataset dl) (st\<lparr>training := False\<rparr>) 0 0
                  (index_batches dl order)) of
        Inl e \<Rightarrow> Inl e
      | Inr (total_loss, total_correct) \<Rightarrow> metrics dl total_loss total_correct)"
  by (simp add: evaluate_def split: prod.splits sum.splits)

text \<open>
  C3: \<open>evaluate\<close> leaves the parameters of the model as they were, whether it returns
  or raises, and a second call right after the first, over the same batches, gives the
  result of the first: the same pair of loss and accuracy, or the same exception.
\<close>

theorem evaluate_leaves_parameters:
  "parameters (fst (evaluate env st dl order)) = parameters st \<and>
   snd (evaluate env (fst (evaluate env st dl order)) dl order) = snd (evaluate env st dl order)"
proof -
  define st0 where "st0 = st\<lparr>training := False\<rparr>"
  obtain st' r where run: "evaluate_loop env (dataset dl) st0 0 0 (index_batches dl order) = (st', r)"
    by (cases "evaluate_loop env (dataset dl) st0 0 0 (index_batches dl order)")
  from evaluate_loop_frame [OF run]
  have fr: "parameters st' = parameters st" "\<not> training st'"
    by (simp_all add: st0_def)
  have first: "fst (evaluate env st dl order) = st'"
    using run by (simp add: evaluate_alt st0_def)
  have "snd (evaluate_loop env (dataset dl) (st'\<lparr>training := False\<rparr>) 0 0 (index_batches dl order)) =
        snd (evaluate_loop env (dataset dl) st0 0 0 (index_batches dl order))"
    by (rule evaluate_loop_snd) (simp_all add: fr st0_def)
  then have "snd (evaluate env st' dl order) = snd (evaluate env st dl order)"
    by (simp add: evaluate_alt st0_def)
  with first fr show ?thesis by simp
qed

text \<open>On the two demo records: loss 1/4 and accuracy 1, twice, at unchanged parameters.\<close>

theorem evaluate_leaves_parameters_witness:
  "parameters (fst (evaluate demo_env demo_session demo_loader [])) = 0 \<and>
   snd (evaluate demo_env demo_session demo_loader []) = Inr (1/4, 1) \<and>
   snd (evaluate demo_env (fst (evaluate demo_env demo_session demo_loader [])) demo_loader []) =
     Inr (1/4, 1)"
proof -
  have e: "snd (evaluate demo_env demo_session demo_loader []) = Inr (1/4, 1)"
    by code_simp
  have p: "parameters demo_session = 0"
    by (simp add: demo_session_def)
  show ?thesis
    using evaluate_leaves_parameters [of demo_env demo_session demo_loader "[]"] e p by simp
qed

subsection \<open>Batches of a pass, and the two divisions\<close>

lemma permutation_of_length: "permutation_of order n \<Longrightarrow> length order = n"
  using distinct_card [of order] by (simp add: permutation_of_def)

lemma concat_index_batches:
  "0 < batch_size dl \<Longrightarrow>
     concat (index_batches dl order) =
       (if shuffle dl then order else [0..<len_dataset (dataset dl)])"
  by (simp add: index_batches_def concat_chunks)

lemma length_concat_index_batches:
  assumes "0 < batch_size dl"
    and "shuffle dl \<Longrightarrow> permutation_of order (len_dataset (dataset dl))"
  shows "length (concat (index_batches dl order)) = len_dataset (dataset dl)"
  using assms by (simp add: concat_index_batches permutation_of_length)

lemma length_index_batches:
  assumes "0 < batch_size dl"
    and "shuffle dl \<Longrightarrow> permutation_of order (len_dataset (dataset dl))"
  shows "length (index_batches dl order) = len_dataloader dl"
proof (cases "shuffle dl")
  case True
  with assms(2) have "length order = len_dataset (dataset dl)"
    by (simp add: permutation_of_length)
  with True assms(1) show ?thesis
    by (simp add: index_batches_def length_chunks len_dataloader_def)
next
  case False
  with assms(1) show ?thesis
    by (simp add: index_batches_def length_chunks len_dataloader_def)
qed

lemma metrics_Inr:
  "metrics dl a c = Inr (x, y) \<Longrightarrow>
     0 < len_dataloader dl \<and> 0 < len_dataset (dataset dl) \<and>
     x = a / of_nat (len_dataloader dl) \<and> y = of_nat c / of_nat (len_dataset (dataset dl))"
  by (auto simp: metrics_def py_div_def split: if_splits)

lemma metrics_defined:
  "0 < len_dataloader dl \<Longrightarrow> 0 < len_dataset (dataset dl) \<Longrightarrow>
     metrics dl a c =
       Inr (a / of_nat (len_dataloader dl), of_nat c / of_nat (len_dataset (dataset dl)))"
  by (simp add: metrics_def py_div_def)

lemma metrics_empty: "len_dataloader dl = 0 \<Longrightarrow> metrics dl a c = Inl ZeroDivisionError"
  by (simp add: metrics_def py_div_def)

lemma length_filter_zip: "length (filter P (zip xs ys)) \<le> length ys"
proof -
  have "length (filter P (zip xs ys)) \<le> length (zip xs ys)" by (rule length_filter_le)
  then show ?thesis by simp
qed

lemma evaluate_batch_count:
  "\<not> training st \<Longrightarrow> evaluate_batch env st b = (st', Inr (loss, c)) \<Longrightarrow>
     c = matching_examples env (parameters st) b \<and> c \<le> length (batch_labels b)"
  by (auto simp: evaluate_batch_eval matching_examples_def correct_predictions_def
      length_filter_zip split: sum.splits if_splits)

lemma evaluate_loop_count:
  "\<not> training st \<Longrightarrow> evaluate_loop env ds st a c bs = (st', Inr (a', c')) \<Longrightarrow>
     c' = c + total_matching_examples env (parameters st) ds bs \<and>
     c' \<le> c + length (concat bs)"
proof (induction bs arbitrary: st a c)
  case Nil
  then show ?case by (simp add: total_matching_examples_def)
next
  case (Cons idxs rest)
  from Cons.prems(2) obtain b where f: "fetch ds idxs = Inr b"
    by (cases "fetch ds idxs") auto
  obtain st1 r1 where eb: "evaluate_batch env st b = (st1, r1)"
    by (cases "evaluate_batch env st b")
  from Cons.prems(2) f eb obtain loss k where r1: "r1 = Inr (loss, k)"
    by (cases r1) auto
  note fr = evaluate_batch_frame [OF eb]
  from evaluate_batch_count [OF Cons.prems(1) eb [unfolded r1]] fetch_length [OF f]
  have k: "k = matching_examples env (parameters st) b" "k \<le> length idxs" by simp_all
  from Cons.prems(2) f eb r1
  have rest: "evaluate_loop env ds st1 (a + loss) (c + k) rest = (st', Inr (a', c'))" by simp
  from fr Cons.prems(1) have nt: "\<not> training st1" by simp
  from Cons.IH [OF nt rest] fr k f show ?case
    by (simp add: total_matching_examples_def)
qed

text \<open>
  C2, as amended: when \<open>evaluate\<close> returns, the accuracy lies between 0 and 1 and is the
  number of examples (not of batches) whose largest logit is at the position of the label,
  summed over the batches of the pass, divided by the number of examples of the dataset.
\<close>

theorem evaluate_accuracy:
  assumes "snd (evaluate env st dl order) = Inr (avg_loss, accuracy)"
    and "0 < batch_size dl"
    and "shuffle dl \<Longrightarrow> permutation_of order (len_dataset (dataset dl))"
  shows "0 \<le> accuracy \<and> accuracy \<le> 1 \<and>
    accuracy =
      of_nat (total_matching_examples env (parameters st) (dataset dl) (index_batches dl order)) /
      of_nat (len_dataset (dataset dl))"
proof -
  define st0 where "st0 = st\<lparr>training := False\<rparr>"
  obtain st' r where run: "evaluate_loop env (dataset dl) st0 0 0 (index_batches dl order) = (st', r)"
    by (cases "evaluate_loop env (dataset dl) st0 0 0 (index_batches dl order)")
  from assms(1) run obtain a c where r: "r = Inr (a, c)" and m: "metrics dl a c = Inr (avg_loss, accuracy)"
    by (cases r) (auto simp: evaluate_alt st0_def)
  have nt: "\<not> training st0" by (simp add: st0_def)
  from evaluate_loop_count [OF nt run [unfolded r]]
  have c: "c = total_matching_examples env (parameters st) (dataset dl) (index_batches dl order)"
    and le: "c \<le> length (concat (index_batches dl order))"
    by (simp_all add: st0_def)
  from le length_concat_index_batches [OF assms(2,3)]
  have le': "c \<le> len_dataset (dataset dl)" by simp
  from metrics_Inr [OF m] have pos: "0 < len_dataset (dataset dl)"
    and acc: "accuracy = of_nat c / of_nat (len_dataset (dataset dl))" by simp_all
  have "accuracy \<le> 1"
    using le' pos by (simp add: acc)
  moreover have "0 \<le> accuracy" by (simp add: acc)
  ultimately show ?thesis using acc c by simp
qed

text \<open>Both demo records are predicted right: accuracy 2/2.\<close>

theorem evaluate_accuracy_witness:
  "snd (evaluate demo_env demo_session demo_loader []) = Inr (1/4, 1) \<and>
   0 < batch_size demo_loader \<and> \<not> shuffle demo_loader \<and>
   (1::rat) =
      of_nat (total_matching_examples demo_env (parameters demo_session) (dataset demo_loader)
                (index_batches demo_loader [])) /
      of_nat (len_dataset (dataset demo_loader))"
proof -
  have e: "snd (evaluate demo_env demo_session demo_loader []) = Inr (1/4, 1)"
    by code_simp
  have b: "0 < batch_size demo_loader" "\<not> shuffle demo_loader"
    by (simp_all add: demo_loader_def)
  show ?thesis
    using evaluate_accuracy [OF e b(1)] e b by simp
qed

text \<open>
  C2 as it is worded fails: on the two demo records in one batch, both predicted right,
  \<open>evaluate\<close> returns the accuracy 1, while the number of batches whose predictions are
  the labels, divided by the number of examples, is 1/2.
\<close>

theorem accuracy_is_not_batch_count:
  "snd (evaluate demo_env demo_session demo_loader []) = Inr (1/4, 1) \<and>
   (of_nat (matching_batches demo_env (parameters demo_session) (dataset demo_loader)
              (index_batches demo_loader [])) /
    of_nat (len_dataset (dataset demo_loader)) :: rat) = 1/2"
  by code_simp

lemma train_alt:
  "train env st dl order =
     (fst (train_loop env (dataset dl) (st\<lparr>training := True\<rparr>) 0 0 (index_batches dl order)),
      case snd (train_loop env (dataset dl) (st\<lparr>training := True\<rparr>) 0 0
                  (index_batches dl order)) of
        Inl e \<Rightarrow> Inl e
      | Inr (total_loss, total_correct) \<Rightarrow> metrics dl total_loss total_correct)"
  by (simp add: train_def split: prod.splits sum.splits)

lemma len_dataloader_empty:
  "0 < batch_size dl \<Longrightarrow> len_dataset (dataset dl) = 0 \<Longrightarrow> len_dataloader dl = 0"
  by (simp add: len_dataloader_def)

lemma index_batches_empty:
  assumes "len_dataset (dataset dl) = 0"
    and "shuffle dl \<Longrightarrow> permutation_of order (len_dataset (dataset dl))"
  shows "index_batches dl order = []"
proof -
  have "(if shuffle dl then order else [0..<len_dataset (dataset dl)]) = []"
    using assms permutation_of_length [of order 0] by auto
  then show ?thesis by (simp add: index_batches_def chunks_Nil)
qed

text \<open>
  C9: for a loader as \<open>DataLoader\<close> builds it and a pass over its indices, \<open>len(dataloader)\<close>
  is the number of batches of the pass, and both loops end with the two divisions of the
  accumulated loss by the number of batches and of the number of correct predictions by
  the number of examples. When the pass has no batch the dataset is empty and both loops
  raise \<open>ZeroDivisionError\<close>; when it has at least one batch both divisors are positive
  and the divisions give the pair of metrics.
\<close>

theorem division_by_zero_on_empty_dataset:
  assumes "0 < batch_size dl"
    and "shuffle dl \<Longrightarrow> permutation_of order (len_dataset (dataset dl))"
  shows "len_dataloader dl = length (index_batches dl order) \<and>
    snd (train env st dl order) =
      (case snd (train_loop env (dataset dl) (st\<lparr>training := True\<rparr>) 0 0
                   (index_batches dl order)) of
         Inl e \<Rightarrow> Inl e
       | Inr (total_loss, total_correct) \<Rightarrow> metrics dl total_loss total_correct) \<and>
    snd (evaluate env st dl order) =
      (case snd (evaluate_loop env (dataset dl) (st\<lparr>training := False\<rparr>) 0 0
                   (index_batches dl order)) of
         Inl e \<Rightarrow> Inl e
       | Inr (total_loss, total_correct) \<Rightarrow> metrics dl total_loss total_correct) \<and>
    (if index_batches dl order = []
     then len_dataset (dataset dl) = 0 \<and>
          snd (train env st dl order) = Inl ZeroDivisionError \<and>
          snd (evaluate env st dl order) = Inl ZeroDivisionError
     else 0 < len_dataloader dl \<and> 0 < len_dataset (dataset dl) \<and>
          (\<forall>total_loss total_correct.
             metrics dl total_loss total_correct =
               Inr (total_loss / of_nat (len_dataloader dl),
                    of_nat total_correct / of_nat (len_dataset (dataset dl)))))"
proof -
  note len = length_index_batches [OF assms]
  note cat = length_concat_index_batches [OF assms]
  have alt: "snd (train env st dl order) =
      (case snd (train_loop env (dataset dl) (st\<lparr>training := True\<rparr>) 0 0
                   (index_batches dl order)) of
         Inl e \<Rightarrow> Inl e
       | Inr (total_loss, total_correct) \<Rightarrow> metrics dl total_loss total_correct)"
    "snd (evaluate env st dl order) =
      (case snd (evaluate_loop env (dataset dl) (st\<lparr>training := False\<rparr>) 0 0
                   (index_batches dl order)) of
         Inl e \<Rightarrow> Inl e
       | Inr (total_loss, total_correct) \<Rightarrow> metrics dl total_loss total_correct)"
    by (simp_all add: train_alt evaluate_alt)
  show ?thesis
  proof (cases "index_batches dl order = []")
    case True
    with len cat have z: "len_dataloader dl = 0" "len_dataset (dataset dl) = 0" by simp_all
    from True z show ?thesis
      using len alt by (simp add: train_alt evaluate_alt metrics_empty)
  next
    case False
    with len have p1: "0 < len_dataloader dl" by (cases "index_batches dl order") auto
    from False index_batches_empty [OF _ assms(2)] have p2: "0 < len_dataset (dataset dl)"
      by (cases "len_dataset (dataset dl)") auto
    from False p1 p2 show ?thesis
      using len alt by (simp add: metrics_defined)
  qed
qed

text \<open>The empty dataset raises in both loops; the two demo records make one batch.\<close>

theorem division_by_zero_on_empty_dataset_witness:
  "0 < batch_size empty_loader \<and> \<not> shuffle empty_loader \<and>
   index_batches empty_loader [] = [] \<and>
   snd (train demo_env demo_session empty_loader []) = Inl ZeroDivisionError \<and>
   snd (evaluate demo_env demo_session empty_loader []) = Inl ZeroDivisionError \<and>
   0 < batch_size demo_loader \<and> \<not> shuffle demo_loader \<and>
   len_dataloader demo_loader = 1 \<and>
   snd (train demo_env demo_session demo_loader []) = Inr (1/4, 1)"
proof -
  have b: "0 < batch_size empty_loader" "\<not> shuffle empty_loader"
    "0 < batch_size demo_loader" "\<not> shuffle demo_loader"
    by (simp_all add: empty_loader_def demo_loader_def)
  have e: "index_batches empty_loader [] = []" "index_batches demo_loader [] = [[0, 1]]"
    by code_simp+
  have t: "snd (train demo_env demo_session demo_loader []) = Inr (1/4, 1)"
    by code_simp
  have simp_b: "\<not> shuffle empty_loader" by (rule b(2))
  from division_by_zero_on_empty_dataset [OF b(1), of "[]" demo_env demo_session]
  have "if index_batches empty_loader [] = []
     then len_dataset (dataset empty_loader) = 0 \<and>
          snd (train demo_env demo_session empty_loader []) = Inl ZeroDivisionError \<and>
          snd (evaluate demo_env demo_session empty_loader []) = Inl ZeroDivisionError
     else 0 < len_dataloader empty_loader \<and> 0 < len_dataset (dataset empty_loader) \<and>
          (\<forall>total_loss total_correct.
             metrics empty_loader total_loss total_correct =
               Inr (total_loss / of_nat (len_dataloader empty_loader),
                    of_nat total_correct / of_nat (len_dataset (dataset empty_loader))))"
    using b(2) by blast
  with e(1) have z: "snd (train demo_env demo_session empty_loader []) = Inl ZeroDivisionError"
    "snd (evaluate demo_env demo_session empty_loader []) = Inl ZeroDivisionError"
    by simp_all
  from division_by_zero_on_empty_dataset [OF b(3), of "[]" demo_env demo_session]
  have "len_dataloader demo_loader = length (index_batches demo_loader [])"
    using b(4) by blast
  with e(2) have l: "len_dataloader demo_loader = 1" by simp
  show ?thesis
    using b e(1) z l t by simp
qed

subsection \<open>The training loop\<close>

lemma model_calls:
  "model env st b = (st', r) \<Longrightarrow>
     calls st' = calls st @ [Forward (length (batch_input_ids b))] \<and>
     training st' = training st \<and> grad st' = grad st"
  by (auto simp: model_def Let_def split: if_splits prod.splits)

lemma criterion_calls:
  "criterion env st outputs lbls = (st', r) \<Longrightarrow>
     calls st' = calls st @ [Criterion] \<and> training st' = training st \<and> grad st' = grad st"
  by (auto simp: criterion_def)

lemma backward_calls:
  "backward env st g0 b = (st', r) \<Longrightarrow>
     calls st' = calls st @ [Backward] \<and> training st' = training st"
  by (auto simp: backward_def Let_def split: sum.splits)

lemma optimizer_step_calls:
  "optimizer_step env st = (st', r) \<Longrightarrow>
     calls st' = calls st @ [OptimizerStep] \<and> training st' = training st"
  by (auto simp: optimizer_step_def Let_def split: sum.splits prod.splits)

lemma train_batch_ok:
  assumes "train_batch env st b = (st', Inr (loss, c))"
  shows "calls st' = calls st @ batch_calls (length (batch_input_ids b)) \<and>
    training st' = training st \<and> c \<le> length (batch_labels b)"
proof -
  obtain st1 r1 where m: "model env (zero_grad st) b = (st1, r1)"
    by (cases "model env (zero_grad st) b")
  from assms m obtain outputs where r1: "r1 = Inr outputs"
    by (cases r1) (auto simp: train_batch_def Let_def)
  obtain st2 r2 where cr: "criterion env st1 outputs (batch_labels b) = (st2, r2)"
    by (cases "criterion env st1 outputs (batch_labels b)")
  from assms m r1 cr obtain l where r2: "r2 = Inr l"
    by (cases r2) (auto simp: train_batch_def Let_def)
  obtain st3 r3 where bw: "backward env st2 (generator st) b = (st3, r3)"
    by (cases "backward env st2 (generator st) b")
  from assms m r1 cr r2 bw obtain u where r3: "r3 = Inr u"
    by (cases r3) (auto simp: train_batch_def Let_def)
  obtain st4 r4 where os: "optimizer_step env st3 = (st4, r4)"
    by (cases "optimizer_step env st3")
  from assms m r1 cr r2 bw r3 os obtain u' where r4: "r4 = Inr u'"
    by (cases r4) (auto simp: train_batch_def Let_def)
  from assms m r1 cr r2 bw r3 os r4
  have fin: "st' = st4" "correct_predictions outputs (batch_labels b) = Inr c"
    by (auto simp: train_batch_def Let_def split: sum.splits)
  from model_calls [OF m] criterion_calls [OF cr] backward_calls [OF bw]
    optimizer_step_calls [OF os] fin(1)
  have "calls st' = calls st @ batch_calls (length (batch_input_ids b))"
    "training st' = training st"
    by (simp_all add: zero_grad_def batch_calls_def)
  with correct_predictions_le [OF fin(2)] show ?thesis by simp
qed

lemma train_loop_ok:
  "train_loop env ds st a c bs = (st', Inr (a', c')) \<Longrightarrow>
     length (batch_results env ds st bs) = length bs \<and>
     a' = a + sum_list (map fst (batch_results env ds st bs)) \<and>
     c' = c + sum_list (map snd (batch_results env ds st bs)) \<and>
     c' \<le> c + length (concat bs) \<and>
     calls st' = calls st @ concat (map (\<lambda>idxs. batch_calls (length idxs)) bs) \<and>
     training st' = training st"
proof (induction bs arbitrary: st a c)
  case Nil
  then show ?case by simp
next
  case (Cons idxs rest)
  from Cons.prems obtain b where f: "fetch ds idxs = Inr b"
    by (cases "fetch ds idxs") auto
  obtain st1 r1 where tb: "train_batch env st b = (st1, r1)"
    by (cases "train_batch env st b")
  from Cons.prems f tb obtain loss k where r1: "r1 = Inr (loss, k)"
    by (cases r1) auto
  from train_batch_ok [OF tb [unfolded r1]] fetch_length [OF f]
  have one: "calls st1 = calls st @ batch_calls (length idxs)" "training st1 = training st"
    "k \<le> length idxs" by simp_all
  from Cons.prems f tb r1
  have rest: "train_loop env ds st1 (a + loss) (c + k) rest = (st', Inr (a', c'))" by simp
  from Cons.IH [OF rest] one f tb r1 show ?case by simp
qed

lemma train_batch_ignores_grad: "train_batch env (st\<lparr>grad := g\<rparr>) b = train_batch env st b"
proof -
  have "zero_grad (st\<lparr>grad := g\<rparr>) = zero_grad st" by (simp add: zero_grad_def)
  then show ?thesis by (simp add: train_batch_def)
qed

lemma train_loop_ignores_grad:
  "snd (train_loop env ds (st\<lparr>grad := g\<rparr>) a c bs) = snd (train_loop env ds st a c bs)"
proof (cases bs)
  case Nil
  then show ?thesis by simp
next
  case (Cons idxs rest)
  then show ?thesis
    by (simp add: train_batch_ignores_grad split: sum.splits prod.splits)
qed

lemma count_optimizer_steps:
  "length (filter (\<lambda>c. c = OptimizerStep) (concat (map (\<lambda>idxs. batch_calls (length idxs)) bs))) =
     length bs"
  by (induction bs) (simp_all add: batch_calls_def)

subsection \<open>The example scenario\<close>

lemma chunks_single:
  assumes "0 < length xs" and "length xs \<le> n"
  shows "chunks n xs = [xs]"
proof -
  from assms have "0 < n" by arith
  moreover from assms(1) have "xs \<noteq> []" by auto
  ultimately have "0 < n" "xs \<noteq> []" by simp_all
  with assms(2) show ?thesis by (simp add: chunks_step chunks_Nil)
qed

lemma SarcasmDataset_len:
  assumes "SarcasmDataset w path name m = Inr ds" and "file_lines w path = Some lines"
  shows "len_dataset ds = length lines"
proof -
  from assms obtain d where "read_lines w lines [] = Inr d" "data ds = d"
    by (auto simp: SarcasmDataset_def split: option.splits sum.splits)
  with read_lines_ok [of w lines "[]" d] show ?thesis
    by (simp add: len_dataset_def)
qed

text \<open>
  C7: for a file of the two lines of the scenario and a batch size of 2, the pass of the
  loader is one batch of the two indices; when the epoch of \<open>train\<close> returns it has
  processed exactly that batch of 2 examples, and the accuracy is 0, 1/2 or 1.
\<close>

theorem two_records_one_batch:
  assumes "file_lines w path = Some [line_a, line_b]"
    and "SarcasmDataset w path name m = Inr ds"
    and "DataLoader ds 2 sh = Inr dl"
    and "shuffle dl \<Longrightarrow> permutation_of order 2"
    and "snd (train env st dl order) = Inr (avg_loss, accuracy)"
  shows "len_dataset ds = 2 \<and>
    index_batches dl order = [if sh then order else [0, 1]] \<and>
    length (if sh then order else [0, 1]) = 2 \<and>
    calls (fst (train env st dl order)) =
      calls st @ [ZeroGrad, Forward 2, Criterion, Backward, OptimizerStep] \<and>
    (accuracy = 0 \<or> accuracy = 1/2 \<or> accuracy = 1)"
proof -
  from SarcasmDataset_len [OF assms(2,1)] have n: "len_dataset ds = 2" by simp
  from assms(3) have dl: "dataset dl = ds" "batch_size dl = 2" "shuffle dl = sh"
    by (auto simp: DataLoader_def split: if_splits)
  define idxs where "idxs = (if sh then order else [0, 1 :: nat])"
  have len: "length idxs = 2"
    using assms(4) dl(3) by (auto simp: idxs_def dest: permutation_of_length)
  have "[0..<2] = [0, 1 :: nat]" by (simp add: upt_conv_Cons)
  then have "index_batches dl order = chunks 2 idxs"
    by (simp add: index_batches_def dl n idxs_def)
  with len have ib: "index_batches dl order = [idxs]"
    by (simp add: chunks_single)
  define st0 where "st0 = st\<lparr>training := True\<rparr>"
  obtain st' r where run: "train_loop env ds st0 0 0 [idxs] = (st', r)"
    by (cases "train_loop env ds st0 0 0 [idxs]")
  from assms(5) run ib dl obtain a c where r: "r = Inr (a, c)"
    and mt: "metrics dl a c = Inr (avg_loss, accuracy)"
    by (cases r) (auto simp: train_alt st0_def)
  have first: "fst (train env st dl order) = st'"
    using run ib dl by (simp add: train_alt st0_def)
  from train_loop_ok [OF run [unfolded r]] len
  have c: "c \<le> 2" and calls: "calls st' = calls st @ batch_calls 2"
    by (simp_all add: st0_def)
  from metrics_Inr [OF mt] dl n have acc: "accuracy = of_nat c / 2" by simp
  from c have "c = 0 \<or> c = 1 \<or> c = 2" by arith
  with acc have "accuracy = 0 \<or> accuracy = 1/2 \<or> accuracy = 1" by auto
  with n ib len first calls show ?thesis
    by (simp add: idxs_def batch_calls_def)
qed

text \<open>
  The file of the two lines in the demo world, drawn in the order 1, 0: one batch of two
  examples, both predicted right.
\<close>

theorem two_records_one_batch_witness:
  "file_lines demo_world ''two.json'' = Some [line_a, line_b] \<and>
   SarcasmDataset demo_world ''two.json'' ''bert-base-uncased'' 4 = Inr two_records \<and>
   DataLoader two_records 2 True = Inr shuffled_loader \<and>
   permutation_of [1, 0] 2 \<and>
   snd (train demo_env demo_session shuffled_loader [1, 0]) = Inr (1/4, 1) \<and>
   index_batches shuffled_loader [1, 0] = [[1, 0]] \<and>
   calls (fst (train demo_env demo_session shuffled_loader [1, 0])) =
     [ZeroGrad, Forward 2, Criterion, Backward, OptimizerStep]"
proof -
  have f: "file_lines demo_world ''two.json'' = Some [line_a, line_b]"
    by (simp add: demo_world_def)
  have d: "SarcasmDataset demo_world ''two.json'' ''bert-base-uncased'' 4 = Inr two_records"
    by (simp add: demo_world_def SarcasmDataset_def two_records_def
        line_a_def line_b_def line_c_def)
  have l: "DataLoader two_records 2 True = Inr shuffled_loader"
    by (simp add: DataLoader_def shuffled_loader_def)
  have s: "shuffle shuffled_loader"
    by (simp add: shuffled_loader_def)
  have p: "permutation_of [1, 0] 2"
    unfolding permutation_of_def by auto
  have t: "snd (train demo_env demo_session shuffled_loader [1, 0]) = Inr (1/4, 1)"
    by code_simp
  have c: "calls demo_session = []"
    by (simp add: demo_session_def)
  from two_records_one_batch [OF f d l p t]
  have "index_batches shuffled_loader [1, 0] = [if True then [1, 0] else [0, 1]] \<and>
    calls (fst (train demo_env demo_session shuffled_loader [1, 0])) =
      calls demo_session @ [ZeroGrad, Forward 2, Criterion, Backward, OptimizerStep]"
    by blast
  with f d l p t c show ?thesis by simp
qed

subsection \<open>The classifier heads\<close>

lemma next_on_Inr [simp]: "next_on (Inr x) f = f x"
  by (simp add: next_on_def)

lemma next_on_Inl [simp]: "next_on (Inl e) f = Inl e"
  by (simp add: next_on_def)

lemma sequence_map_Inr:
  "(\<And>x. x \<in> set xs \<Longrightarrow> f x = Inr (g x)) \<Longrightarrow> sequence (map f xs) = Inr (map g xs)"
  by (induction xs) simp_all

lemma sequence_map_Inl:
  "x \<in> set xs \<Longrightarrow> isl (f x) \<Longrightarrow> isl (sequence (map f xs))"
  by (induction xs) (auto split: sum.splits)

lemma bert_ok:
  "0 < L \<Longrightarrow> L \<le> max_position_embeddings cfg \<Longrightarrow>
     bert cfg [B, L] [B, L] = Inr ([B, L, hidden_size cfg], [B, hidden_size cfg])"
  by (simp add: bert_def)

lemma conv_branch_ok:
  "0 < k \<Longrightarrow> k \<le> L \<Longrightarrow> 0 < H \<Longrightarrow>
     next_on (conv2d 1 F (k, H) [B, 1, L, H]) (\<lambda>c. squeeze (relu c) 3) = Inr [B, F, L - k + 1]"
  by (simp add: conv2d_def squeeze_def relu_def)

lemma conv_branch_fails:
  "L < k \<Longrightarrow> isl (next_on (conv2d 1 F (k, H) [B, 1, L, H]) (\<lambda>c. squeeze (relu c) 3))"
  by (simp add: conv2d_def)

lemma pool_branch_ok:
  "0 < n \<Longrightarrow>
     next_on (size_dim [B, F, n] 2) (\<lambda>n'. next_on (max_pool1d [B, F, n] n') (\<lambda>p. squeeze p 2)) =
       Inr [B, F]"
  by (simp add: size_dim_def max_pool1d_def squeeze_def)

lemma cat1_same:
  "ks \<noteq> [] \<Longrightarrow> cat1 (map (\<lambda>k. [B, F]) ks) = Inr [B, length ks * F]"
proof -
  have s: "sum_list (map (\<lambda>t. t ! 1) (map (\<lambda>k. [B, F]) ks)) = length ks * F"
    by (induction ks) simp_all
  have a: "list_all (\<lambda>t. length t = length [B, F] \<and> t[1 := 0] = [B, F][1 := 0]) (map (\<lambda>k. [B, F]) (tl ks))"
    by (simp add: list_all_iff)
  assume "ks \<noteq> []"
  then obtain k rest where ks: "ks = k # rest" by (cases ks) auto
  show ?thesis
    using s a unfolding ks cat1_def by (simp add: list_all_iff)
qed

lemma BertCNN_ok:
  assumes "0 < L" and "L \<le> max_position_embeddings (cnn_bert m)"
    and "0 < hidden_size (cnn_bert m)" and "filter_sizes m \<noteq> []"
    and "\<And>k. k \<in> set (filter_sizes m) \<Longrightarrow> 0 < k \<and> k \<le> L"
  shows "BertCNN_forward m [B, L] [B, L] = Inr [B, cnn_num_classes m]"
proof -
  let ?H = "hidden_size (cnn_bert m)"
  let ?F = "num_filters m"
  have convs: "sequence (map (\<lambda>k. next_on (conv2d 1 ?F (k, ?H) [B, 1, L, ?H])
        (\<lambda>c. squeeze (relu c) 3)) (filter_sizes m)) =
      Inr (map (\<lambda>k. [B, ?F, L - k + 1]) (filter_sizes m))"
  proof (rule sequence_map_Inr)
    fix k
    assume "k \<in> set (filter_sizes m)"
    with assms(5) have k: "0 < k" "k \<le> L" by auto
    show "next_on (conv2d 1 ?F (k, ?H) [B, 1, L, ?H]) (\<lambda>c. squeeze (relu c) 3) =
        Inr [B, ?F, L - k + 1]"
      by (rule conv_branch_ok [OF k assms(3)])
  qed
  have pools: "sequence (map (\<lambda>i. next_on (size_dim i 2)
        (\<lambda>n. next_on (max_pool1d i n) (\<lambda>p. squeeze p 2)))
        (map (\<lambda>k. [B, ?F, L - k + 1]) (filter_sizes m))) =
      Inr (map (\<lambda>i. [B, ?F]) (map (\<lambda>k. [B, ?F, L - k + 1]) (filter_sizes m)))"
    by (rule sequence_map_Inr) (auto simp: pool_branch_ok)
  have cat: "cat1 (map (\<lambda>i. [B, ?F]) (map (\<lambda>k. [B, ?F, L - k + 1]) (filter_sizes m))) =
      Inr [B, length (filter_sizes m) * ?F]"
    using cat1_same [OF assms(4), of B ?F] by (simp add: comp_def)
  have unsq: "unsqueeze [B, L, ?H] 1 = Inr [B, 1, L, ?H]"
    by (simp add: unsqueeze_def)
  have "BertCNN_forward m [B, L] [B, L] =
      linear_layer (length (filter_sizes m) * ?F) (cnn_num_classes m)
        (dropout [B, length (filter_sizes m) * ?F])"
    unfolding BertCNN_forward_def
    by (simp only: bert_ok [OF assms(1,2)] next_on_Inr prod.case unsq convs pools cat)
  then show ?thesis
    by (simp add: dropout_def linear_layer_def)
qed

lemma BertCNN_fails:
  assumes "k \<in> set (filter_sizes m)" and "L < k"
  shows "isl (BertCNN_forward m [B, L] [B, L])"
proof (cases "bert (cnn_bert m) [B, L] [B, L]")
  case (Inl e)
  then show ?thesis by (simp add: BertCNN_forward_def)
next
  case (Inr hp)
  then have hp: "hp = ([B, L, hidden_size (cnn_bert m)], [B, hidden_size (cnn_bert m)])"
    by (auto simp: bert_def split: if_splits)
  have "isl (sequence (map (\<lambda>k. next_on (conv2d 1 (num_filters m) (k, hidden_size (cnn_bert m))
        [B, 1, L, hidden_size (cnn_bert m)]) (\<lambda>c. squeeze (relu c) 3)) (filter_sizes m)))"
    by (rule sequence_map_Inl [OF assms(1)]) (rule conv_branch_fails [OF assms(2)])
  then obtain e where "sequence (map (\<lambda>k. next_on (conv2d 1 (num_filters m) (k, hidden_size (cnn_bert m))
        [B, 1, L, hidden_size (cnn_bert m)]) (\<lambda>c. squeeze (relu c) 3)) (filter_sizes m)) = Inl e"
    by (auto simp: isl_def)
  moreover have "unsqueeze [B, L, hidden_size (cnn_bert m)] 1 = Inr [B, 1, L, hidden_size (cnn_bert m)]"
    by (simp add: unsqueeze_def)
  ultimately have "BertCNN_forward m [B, L] [B, L] = Inl e"
    unfolding BertCNN_forward_def using Inr hp
    by (simp only: next_on_Inr next_on_Inl prod.case)
  then show ?thesis by simp
qed

text \<open>
  C6, as amended: on a batch of \<open>B\<close> sequences of \<open>L\<close> tokens, with \<open>L\<close> at least 1 and
  within the position table of the encoder, the MLP, LSTM and RNN heads return logits of
  shape \<open>(B, num_classes)\<close>; the convolutional head returns that shape when moreover the
  hidden width of the encoder is positive, the head has a filter and every filter size
  is between 1 and \<open>L\<close>; it raises when a filter size exceeds \<open>L\<close>.
\<close>

theorem heads_logits_shape:
  "(0 < L \<and> L \<le> max_position_embeddings (mlp_bert mlp) \<longrightarrow>
       BertMLP_forward mlp [B, L] [B, L] = Inr [B, mlp_num_classes mlp]) \<and>
   (0 < L \<and> L \<le> max_position_embeddings (lstm_bert lstm) \<longrightarrow>
       BertLSTM_forward lstm [B, L] [B, L] = Inr [B, lstm_num_classes lstm]) \<and>
   (0 < L \<and> L \<le> max_position_embeddings (rnn_bert rnn) \<longrightarrow>
       BertRNN_forward rnn [B, L] [B, L] = Inr [B, rnn_num_classes rnn]) \<and>
   (0 < L \<and> L \<le> max_position_embeddings (cnn_bert cnn) \<and> 0 < hidden_size (cnn_bert cnn) \<and>
    filter_sizes cnn \<noteq> [] \<and> (\<forall>k\<in>set (filter_sizes cnn). 0 < k \<and> k \<le> L) \<longrightarrow>
       BertCNN_forward cnn [B, L] [B, L] = Inr [B, cnn_num_classes cnn]) \<and>
   ((\<exists>k\<in>set (filter_sizes cnn). L < k) \<longrightarrow> isl (BertCNN_forward cnn [B, L] [B, L]))"
proof (intro conjI impI)
  assume "0 < L \<and> L \<le> max_position_embeddings (mlp_bert mlp)"
  then show "BertMLP_forward mlp [B, L] [B, L] = Inr [B, mlp_num_classes mlp]"
    by (simp add: BertMLP_forward_def bert_ok linear_layer_def relu_def dropout_def)
next
  assume "0 < L \<and> L \<le> max_position_embeddings (lstm_bert lstm)"
  then show "BertLSTM_forward lstm [B, L] [B, L] = Inr [B, lstm_num_classes lstm]"
    by (simp add: BertLSTM_forward_def bert_ok recurrent_def mean_dim_def linear_layer_def
        dropout_def)
next
  assume "0 < L \<and> L \<le> max_position_embeddings (rnn_bert rnn)"
  then show "BertRNN_forward rnn [B, L] [B, L] = Inr [B, rnn_num_classes rnn]"
    by (simp add: BertRNN_forward_def bert_ok recurrent_def mean_dim_def linear_layer_def
        dropout_def)
next
  assume a: "0 < L \<and> L \<le> max_position_embeddings (cnn_bert cnn) \<and>
    0 < hidden_size (cnn_bert cnn) \<and>
    filter_sizes cnn \<noteq> [] \<and> (\<forall>k\<in>set (filter_sizes cnn). 0 < k \<and> k \<le> L)"
  show "BertCNN_forward cnn [B, L] [B, L] = Inr [B, cnn_num_classes cnn]"
    by (rule BertCNN_ok) (use a in auto)
next
  assume "\<exists>k\<in>set (filter_sizes cnn). L < k"
  then obtain k where "k \<in> set (filter_sizes cnn)" "L < k" by blast
  then show "isl (BertCNN_forward cnn [B, L] [B, L])"
    by (rule BertCNN_fails)
qed

text \<open>
  The four heads as their constructors build them, on the batches of \<open>main\<close> (32
  sequences of 128 tokens); and the convolutional head on sequences of 4 tokens.
\<close>

theorem heads_logits_shape_witness:
  "BertMLP_forward default_mlp [32, 128] [32, 128] = Inr [32, 2] \<and>
   BertLSTM_forward default_lstm [32, 128] [32, 128] = Inr [32, 2] \<and>
   BertRNN_forward default_rnn [32, 128] [32, 128] = Inr [32, 2] \<and>
   BertCNN_forward default_cnn [32, 128] [32, 128] = Inr [32, 2] \<and>
   isl (BertCNN_forward default_cnn [32, 4] [32, 4])"
proof -
  have c: "max_position_embeddings (mlp_bert default_mlp) = 512"
    "max_position_embeddings (lstm_bert default_lstm) = 512"
    "max_position_embeddings (rnn_bert default_rnn) = 512"
    "max_position_embeddings (cnn_bert default_cnn) = 512"
    "hidden_size (cnn_bert default_cnn) = 768"
    "filter_sizes default_cnn = [3, 4, 5]"
    "mlp_num_classes default_mlp = 2" "lstm_num_classes default_lstm = 2"
    "rnn_num_classes default_rnn = 2" "cnn_num_classes default_cnn = 2"
    by (simp_all add: default_mlp_def default_lstm_def default_rnn_def default_cnn_def
        bert_base_uncased_def)
  from heads_logits_shape [of 128 default_mlp 32 default_lstm default_rnn default_cnn]
  have a: "BertMLP_forward default_mlp [32, 128] [32, 128] = Inr [32, 2] \<and>
   BertLSTM_forward default_lstm [32, 128] [32, 128] = Inr [32, 2] \<and>
   BertRNN_forward default_rnn [32, 128] [32, 128] = Inr [32, 2] \<and>
   BertCNN_forward default_cnn [32, 128] [32, 128] = Inr [32, 2]"
    by (simp add: c)
  from heads_logits_shape [of 4 default_mlp 32 default_lstm default_rnn default_cnn]
  have b: "isl (BertCNN_forward default_cnn [32, 4] [32, 4])"
    by (simp add: c)
  from a b show ?thesis by simp
qed

text \<open>
  C6 as it is worded fails. The convolutional head with its filter sizes 3, 4 and 5
  raises on a batch of shape \<open>(2, 4)\<close>, since the filter of size 5 does not fit 4 tokens;
  it raises without a filter and on an encoder of width 0. Every head raises on empty
  sequences and on sequences of 513 tokens, beyond the 512 positions of the encoder.
\<close>

theorem cnn_rejects_short_sequences:
  "BertCNN_forward default_cnn [2, 4] [2, 4] = Inl RuntimeError \<and>
   BertCNN_forward default_cnn [2, 4] [2, 4] \<noteq> Inr [2, cnn_num_classes default_cnn] \<and>
   BertCNN_forward cnn_without_filters [2, 128] [2, 128] = Inl RuntimeError \<and>
   BertCNN_forward cnn_zero_width [2, 128] [2, 128] = Inl RuntimeError \<and>
   BertMLP_forward default_mlp [2, 0] [2, 0] = Inl RuntimeError \<and>
   BertLSTM_forward default_lstm [2, 0] [2, 0] = Inl RuntimeError \<and>
   BertRNN_forward default_rnn [2, 0] [2, 0] = Inl RuntimeError \<and>
   BertCNN_forward default_cnn [2, 0] [2, 0] = Inl RuntimeError \<and>
   BertMLP_forward default_mlp [2, 513] [2, 513] = Inl RuntimeError \<and>
   BertLSTM_forward default_lstm [2, 513] [2, 513] = Inl RuntimeError \<and>
   BertRNN_forward default_rnn [2, 513] [2, 513] = Inl RuntimeError \<and>
   BertCNN_forward default_cnn [2, 513] [2, 513] = Inl RuntimeError"
proof -
  have "BertCNN_forward default_cnn [2, 4] [2, 4] = Inl RuntimeError"
    "BertCNN_forward cnn_without_filters [2, 128] [2, 128] = Inl RuntimeError"
    "BertCNN_forward cnn_zero_width [2, 128] [2, 128] = Inl RuntimeError"
    "BertMLP_forward default_mlp [2, 0] [2, 0] = Inl RuntimeError"
    "BertLSTM_forward default_lstm [2, 0] [2, 0] = Inl RuntimeError"
    "BertRNN_forward default_rnn [2, 0] [2, 0] = Inl RuntimeError"
    "BertCNN_forward default_cnn [2, 0] [2, 0] = Inl RuntimeError"
    "BertMLP_forward default_mlp [2, 513] [2, 513] = Inl RuntimeError"
    "BertLSTM_forward default_lstm [2, 513] [2, 513] = Inl RuntimeError"
    "BertRNN_forward default_rnn [2, 513] [2, 513] = Inl RuntimeError"
    "BertCNN_forward default_cnn [2, 513] [2, 513] = Inl RuntimeError"
    by code_simp+
  then show ?thesis by simp
qed

subsection \<open>The epochs of \<open>main\<close> and the checkpoint policy\<close>

text \<open>
  A run of \<open>main\<close> that ends without an exception leaves the variables of the policy as
  the policy leaves them on the outcomes of its epochs.
\<close>

lemma main_loop_is_epoch_loop:
  "raised (snd (main_loop env sched tl_loader vl_loader epoch draws st run)) = None \<Longrightarrow>
     snd (main_loop env sched tl_loader vl_loader epoch draws st run) =
       epoch_loop epoch (epoch_outcomes env sched tl_loader vl_loader draws st) run \<and>
     length (epoch_outcomes env sched tl_loader vl_loader draws st) = length draws"
proof (induction draws arbitrary: epoch st run)
  case Nil
  then show ?case by simp
next
  case (Cons d rest)
  obtain order dsk where d: "d = (order, dsk)" by (cases d)
  obtain st1 r1 where t: "train env st tl_loader order = (st1, r1)"
    by (cases "train env st tl_loader order")
  from Cons.prems d t obtain train_loss train_accuracy where r1: "r1 = Inr (train_loss, train_accuracy)"
    by (cases r1) auto
  obtain st2 r2 where e: "evaluate env st1 vl_loader [] = (st2, r2)"
    by (cases "evaluate env st1 vl_loader []")
  from Cons.prems d t r1 e obtain val_loss val_acc where r2: "r2 = Inr (val_loss, val_acc)"
    by (cases r2) auto
  define st3 where "st3 = st2\<lparr>optimizer_state := sched (optimizer_state st2)\<rparr>"
  define run' where "run' = checkpoint_policy epoch
      \<lparr>state_dict = parameters st3, val_accuracy = val_acc, storage = dsk\<rparr> run"
  have step: "main_loop env sched tl_loader vl_loader epoch (d # rest) st run =
      (case raised run' of
         Some e \<Rightarrow> (st3, run')
       | None \<Rightarrow> main_loop env sched tl_loader vl_loader (Suc epoch) rest st3 run')"
    unfolding st3_def run'_def by (simp add: d t r1 e r2 Let_def split: option.splits)
  have outs: "epoch_outcomes env sched tl_loader vl_loader (d # rest) st =
      \<lparr>state_dict = parameters st3, val_accuracy = val_acc, storage = dsk\<rparr> #
      epoch_outcomes env sched tl_loader vl_loader rest st3"
    unfolding st3_def by (simp add: d t r1 e r2 Let_def)
  from Cons.prems step have ok: "raised run' = None"
    by (cases "raised run'") auto
  with Cons.prems step
  have "raised (snd (main_loop env sched tl_loader vl_loader (Suc epoch) rest st3 run')) = None"
    by simp
  from Cons.IH [OF this] ok show ?case
    by (simp add: step outs run'_def)
qed

subsection \<open>The training loop against the specification's epoch\<close>

lemma train_batch_is_batch_step:
  assumes "training st"
  shows "(train_batch env st b = (st', Inr (loss, c))) = (batch_step env st b = Some (st', loss, c))"
proof -
  obtain r g where ft: "forward_train env (parameters st) (generator st)
      (batch_input_ids b) (batch_attention_mask b) = (r, g)"
    by (cases "forward_train env (parameters st) (generator st)
      (batch_input_ids b) (batch_attention_mask b)")
  show ?thesis
  proof (cases r)
    case (Inl e)
    with assms ft show ?thesis
      by (simp add: train_batch_def batch_step_def model_def zero_grad_def Let_def)
  next
    case (Inr logits)
    have m: "model env (zero_grad st) b =
        (st\<lparr>grad := None, generator := g,
            calls := calls st @ [ZeroGrad, Forward (length (batch_input_ids b))]\<rparr>, Inr logits)"
      using assms ft Inr by (simp add: model_def zero_grad_def Let_def)
    show ?thesis
    proof (cases "length logits \<noteq> length (batch_labels b)")
      case True
      with ft Inr m show ?thesis
        by (simp add: train_batch_def batch_step_def criterion_def Let_def)
    next
      case len: False
      show ?thesis
      proof (cases "cross_entropy env logits (batch_labels b)")
        case (Inl e)
        with ft Inr m len show ?thesis
          by (simp add: train_batch_def batch_step_def criterion_def Let_def)
      next
        case ce: (Inr l)
        show ?thesis
        proof (cases "gradient env (parameters st) (generator st) b")
          case (Inl e)
          with ft Inr m len ce show ?thesis
            by (simp add: train_batch_def batch_step_def criterion_def backward_def Let_def)
        next
          case gr: (Inr gr)
          show ?thesis
          proof (cases "adamw_step env (optimizer_state st) (parameters st) (Some gr)")
            case (Inl e)
            with ft Inr m len ce gr show ?thesis
              by (simp add: train_batch_def batch_step_def criterion_def backward_def
                  optimizer_step_def Let_def)
          next
            case st: (Inr osp)
            obtain os p where osp: "osp = (os, p)" by (cases osp)
            from ft Inr m len ce gr st osp show ?thesis
              by (auto simp: train_batch_def batch_step_def criterion_def backward_def
                  optimizer_step_def correct_predictions_def batch_calls_def Let_def)
          qed
        qed
      qed
    qed
  qed
qed

lemma batch_step_training:
  "batch_step env st b = Some (st', loss, c) \<Longrightarrow> training st' = training st"
  by (auto simp: batch_step_def split: prod.splits sum.splits if_splits)

lemma epoch_steps_length:
  "epoch_steps env ds st bs = Some (st', rs) \<Longrightarrow> length rs = length bs"
  by (induction bs arbitrary: st st' rs) (auto split: sum.splits option.splits)

lemma train_loop_is_epoch_steps:
  assumes "training st"
  shows "(train_loop env ds st a c bs = (st', Inr (a', c'))) =
    (\<exists>rs. epoch_steps env ds st bs = Some (st', rs) \<and>
          a' = a + sum_list (map fst rs) \<and> c' = c + sum_list (map snd rs))"
  using assms
proof (induction bs arbitrary: st a c)
  case Nil
  then show ?case by auto
next
  case (Cons idxs rest)
  show ?case
  proof (cases "fetch ds idxs")
    case (Inl e)
    then show ?thesis by simp
  next
    case (Inr b)
    obtain s1 r1 where tb: "train_batch env st b = (s1, r1)"
      by (cases "train_batch env st b")
    show ?thesis
    proof (cases "batch_step env st b")
      case None
      have "\<exists>e. r1 = Inl e"
      proof (cases r1)
        case (Inl e)
        then show ?thesis by simp
      next
        case r: (Inr lk)
        obtain l k where "lk = (l, k)" by (cases lk)
        with tb r train_batch_is_batch_step [OF Cons.prems, of env b s1 l k] None
        show ?thesis by simp
      qed
      with Inr tb None show ?thesis by auto
    next
      case (Some slk)
      obtain st1 l k where slk: "slk = (st1, l, k)" by (cases slk)
      from Some slk train_batch_is_batch_step [OF Cons.prems, of env b st1 l k]
      have tb1: "train_batch env st b = (st1, Inr (l, k))" by simp
      from batch_step_training [OF Some [unfolded slk]] Cons.prems
      have tr: "training st1" by simp
      have loop: "train_loop env ds st a c (idxs # rest) =
          train_loop env ds st1 (a + l) (c + k) rest"
        by (simp add: Inr tb1)
      have steps: "epoch_steps env ds st (idxs # rest) =
          (case epoch_steps env ds st1 rest of
             None \<Rightarrow> None
           | Some (st', rs) \<Rightarrow> Some (st', (l, k) # rs))"
        by (simp add: Inr Some slk)
      show ?thesis
        unfolding loop steps Cons.IH [OF tr]
        by (auto split: option.splits simp: add.assoc)
    qed
  qed
qed

text \<open>
  C4: for a loader as \<open>DataLoader\<close> builds it, the batches of an epoch cover the indices
  of the pass once. When \<open>train\<close> returns, it has done on every batch, one after the
  other, what the specification says of a batch: the logits of the head, the loss of the
  criterion on these logits and the labels, the gradient of this batch alone, one step of
  the optimizer with it; the state it leaves (parameters, gradient, optimizer state) is
  the state after the last of these steps, the loss returned is the sum of the losses of
  the batches divided by the number of batches, and the accuracy is the sum of their
  numbers of correct predictions divided by the number of examples. Conversely, when
  every step of the specification's epoch succeeds on at least one batch, \<open>train\<close>
  returns that state and these metrics. The optimizer steps are as many as the batches,
  and a gradient stored before the epoch does not enter it.
\<close>

theorem train_epoch:
  assumes "0 < batch_size dl"
    and "shuffle dl \<Longrightarrow> permutation_of order (len_dataset (dataset dl))"
  shows "concat (index_batches dl order) =
      (if shuffle dl then order else [0..<len_dataset (dataset dl)]) \<and>
    (\<forall>avg_loss accuracy.
       snd (train env st dl order) = Inr (avg_loss, accuracy) \<longrightarrow>
       (\<exists>rs. epoch_steps env (dataset dl) (st\<lparr>training := True\<rparr>) (index_batches dl order) =
               Some (fst (train env st dl order), rs) \<and>
             length rs = length (index_batches dl order) \<and>
             avg_loss = sum_list (map fst rs) / of_nat (length (index_batches dl order)) \<and>
             accuracy = of_nat (sum_list (map snd rs)) / of_nat (len_dataset (dataset dl))) \<and>
       calls (fst (train env st dl order)) =
         calls st @ concat (map (\<lambda>idxs. batch_calls (length idxs)) (index_batches dl order))) \<and>
    (\<forall>st' rs.
       epoch_steps env (dataset dl) (st\<lparr>training := True\<rparr>) (index_batches dl order) =
         Some (st', rs) \<and> index_batches dl order \<noteq> [] \<longrightarrow>
       train env st dl order =
         (st', Inr (sum_list (map fst rs) / of_nat (length (index_batches dl order)),
                    of_nat (sum_list (map snd rs)) / of_nat (len_dataset (dataset dl))))) \<and>
    length (filter (\<lambda>c. c = OptimizerStep)
        (concat (map (\<lambda>idxs. batch_calls (length idxs)) (index_batches dl order)))) =
      length (index_batches dl order) \<and>
    (\<forall>g. snd (train env (st\<lparr>grad := g\<rparr>) dl order) = snd (train env st dl order))"
proof -
  define st0 where "st0 = st\<lparr>training := True\<rparr>"
  define bs where "bs = index_batches dl order"
  have tr: "training st0" by (simp add: st0_def)
  note len = length_index_batches [OF assms]
  have part1: "concat (index_batches dl order) =
      (if shuffle dl then order else [0..<len_dataset (dataset dl)])"
    by (rule concat_index_batches [OF assms(1)])
  have part2: "\<exists>rs. epoch_steps env (dataset dl) st0 bs = Some (fst (train env st dl order), rs) \<and>
             length rs = length bs \<and>
             avg_loss = sum_list (map fst rs) / of_nat (length bs) \<and>
             accuracy = of_nat (sum_list (map snd rs)) / of_nat (len_dataset (dataset dl))"
    and part2c: "calls (fst (train env st dl order)) =
         calls st @ concat (map (\<lambda>idxs. batch_calls (length idxs)) bs)"
    if ok: "snd (train env st dl order) = Inr (avg_loss, accuracy)" for avg_loss accuracy
  proof -
    obtain st' r where run: "train_loop env (dataset dl) st0 0 0 bs = (st', r)"
      by (cases "train_loop env (dataset dl) st0 0 0 bs")
    from ok run obtain a c where r: "r = Inr (a, c)"
      and m: "metrics dl a c = Inr (avg_loss, accuracy)"
      by (cases r) (auto simp: train_alt st0_def bs_def)
    have first: "fst (train env st dl order) = st'"
      using run by (simp add: train_alt st0_def bs_def)
    from run r train_loop_is_epoch_steps [OF tr, of env "dataset dl" 0 0 bs st' a c]
    obtain rs where rs: "epoch_steps env (dataset dl) st0 bs = Some (st', rs)"
      "a = sum_list (map fst rs)" "c = sum_list (map snd rs)"
      by auto
    from metrics_Inr [OF m] len
    have "avg_loss = a / of_nat (length bs)"
      "accuracy = of_nat c / of_nat (len_dataset (dataset dl))"
      by (simp_all add: bs_def)
    with rs first epoch_steps_length [OF rs(1)]
    show "\<exists>rs. epoch_steps env (dataset dl) st0 bs = Some (fst (train env st dl order), rs) \<and>
             length rs = length bs \<and>
             avg_loss = sum_list (map fst rs) / of_nat (length bs) \<and>
             accuracy = of_nat (sum_list (map snd rs)) / of_nat (len_dataset (dataset dl))"
      by auto
    from train_loop_ok [OF run [unfolded r]] first
    show "calls (fst (train env st dl order)) =
         calls st @ concat (map (\<lambda>idxs. batch_calls (length idxs)) bs)"
      by (simp add: st0_def)
  qed
  have part3: "train env st dl order =
         (st', Inr (sum_list (map fst rs) / of_nat (length bs),
                    of_nat (sum_list (map snd rs)) / of_nat (len_dataset (dataset dl))))"
    if es: "epoch_steps env (dataset dl) st0 bs = Some (st', rs)" and ne: "bs \<noteq> []"
    for st' rs
  proof -
    from es train_loop_is_epoch_steps [OF tr, of env "dataset dl" 0 0 bs st'
        "sum_list (map fst rs)" "sum_list (map snd rs)"]
    have run: "train_loop env (dataset dl) st0 0 0 bs =
        (st', Inr (sum_list (map fst rs), sum_list (map snd rs)))"
      by simp
    from ne len have p1: "0 < len_dataloader dl"
      by (cases bs) (auto simp: bs_def)
    from ne index_batches_empty [OF _ assms(2)] have p2: "0 < len_dataset (dataset dl)"
      by (cases "len_dataset (dataset dl)") (auto simp: bs_def)
    from run metrics_defined [OF p1 p2] len show ?thesis
      by (simp add: train_def st0_def bs_def)
  qed
  have part5: "\<And>g. snd (train env (st\<lparr>grad := g\<rparr>) dl order) = snd (train env st dl order)"
  proof -
    fix g
    have eq: "st\<lparr>grad := g, training := True\<rparr> = st\<lparr>training := True, grad := g\<rparr>"
      by (cases st) simp
    have "snd (train_loop env (dataset dl) (st\<lparr>grad := g, training := True\<rparr>) 0 0
               (index_batches dl order)) =
          snd (train_loop env (dataset dl) (st\<lparr>training := True\<rparr>) 0 0
               (index_batches dl order))"
      unfolding eq by (rule train_loop_ignores_grad)
    then show "snd (train env (st\<lparr>grad := g\<rparr>) dl order) = snd (train env st dl order)"
      by (simp add: train_alt)
  qed
  show ?thesis
    using part1 part2 part2c part3 part5
    unfolding st0_def bs_def
    by (intro conjI allI impI) (auto simp: count_optimizer_steps)
qed

text \<open>
  Three records in batches of 2, drawn in the order 2, 0, 1: two batches, two steps of
  the optimizer (which counts them in the parameters), the gradient of the last batch
  alone, the loss (1/4 + 1/4) / 2 and the accuracy 2/3.
\<close>

theorem train_epoch_witness:
  "0 < batch_size three_records_loader \<and>
   permutation_of [2, 0, 1] (len_dataset (dataset three_records_loader)) \<and>
   index_batches three_records_loader [2, 0, 1] = [[2, 0], [1]] \<and>
   snd (train demo_env demo_session three_records_loader [2, 0, 1]) = Inr (1/4, 2/3) \<and>
   epoch_steps demo_env (dataset three_records_loader) (demo_session\<lparr>training := True\<rparr>)
     [[2, 0], [1]] =
     Some (\<lparr>parameters = 2, grad = Some 1, optimizer_state = 2, training = True, generator = 2,
            calls = [ZeroGrad, Forward 2, Criterion, Backward, OptimizerStep,
                     ZeroGrad, Forward 1, Criterion, Backward, OptimizerStep]\<rparr>,
           [(1/4, 1), (1/4, 1)]) \<and>
   fst (train demo_env demo_session three_records_loader [2, 0, 1]) =
     \<lparr>parameters = 2, grad = Some 1, optimizer_state = 2, training = True, generator = 2,
      calls = [ZeroGrad, Forward 2, Criterion, Backward, OptimizerStep,
               ZeroGrad, Forward 1, Criterion, Backward, OptimizerStep]\<rparr>"
proof -
  have t: "snd (train demo_env demo_session three_records_loader [2, 0, 1]) = Inr (1/4, 2/3)"
    by code_simp
  have b: "0 < batch_size three_records_loader"
    by (simp add: three_records_loader_def)
  have l: "len_dataset (dataset three_records_loader) = 3"
    by (simp add: three_records_loader_def len_dataset_def)
  have p: "permutation_of [2, 0, 1] (len_dataset (dataset three_records_loader))"
    unfolding l permutation_of_def by auto
  have i: "index_batches three_records_loader [2, 0, 1] = [[2, 0], [1]]"
    by code_simp
  have es: "epoch_steps demo_env (dataset three_records_loader) (demo_session\<lparr>training := True\<rparr>)
     [[2, 0], [1]] =
     Some (\<lparr>parameters = 2, grad = Some 1, optimizer_state = 2, training = True, generator = 2,
            calls = [ZeroGrad, Forward 2, Criterion, Backward, OptimizerStep,
                     ZeroGrad, Forward 1, Criterion, Backward, OptimizerStep]\<rparr>,
           [(1/4, 1), (1/4, 1)])"
    by code_simp
  from train_epoch [OF b p, of demo_env demo_session] t
  have "\<exists>rs. epoch_steps demo_env (dataset three_records_loader) (demo_session\<lparr>training := True\<rparr>)
        (index_batches three_records_loader [2, 0, 1]) =
      Some (fst (train demo_env demo_session three_records_loader [2, 0, 1]), rs)"
    by blast
  then have f: "fst (train demo_env demo_session three_records_loader [2, 0, 1]) =
     \<lparr>parameters = 2, grad = Some 1, optimizer_state = 2, training = True, generator = 2,
      calls = [ZeroGrad, Forward 2, Criterion, Backward, OptimizerStep,
               ZeroGrad, Forward 1, Criterion, Backward, OptimizerStep]\<rparr>"
    unfolding i es by auto
  from b p i t es f show ?thesis by simp
qed

end
